theory Spec2Isabelle
  imports Complex_Main "HOL-Library.Word" "HOL-Library.Sublist"
begin

section \<open>pgmount: device records, the poll-diff loop and the mount state machine\<close>

text \<open>
  A shallow embedding of the Go packages \<^verbatim>\<open>device\<close> (device/device.go) and
  \<^verbatim>\<open>daemon\<close> (daemon/daemon.go). Go strings are byte sequences and are modelled as
  \<^typ>\<open>string\<close>; a run-time panic is a value of its own; everything the daemon asks of
  the operating system (external tools, directory creation, notifications) is recorded in a
  trace and answered by an explicit world.
\<close>

subsection \<open>The parts of the Go standard library that the code uses\<close>

text \<open>
  \<^verbatim>\<open>strings.HasPrefix(s, p)\<close> is \<^term>\<open>prefix p s\<close>.

  \<^verbatim>\<open>strings.ReplaceAll(s, old, new)\<close>: the non-overlapping occurrences of
  \<^verbatim>\<open>old\<close> are replaced from left to right. For an empty \<^verbatim>\<open>old\<close> Go
  inserts \<^verbatim>\<open>new\<close> before every rune and at the end; the second branch of
  \<open>ReplaceAll\<close> writes that out for one-byte runes (every call of the program passes a
  non-empty literal).
\<close>

function replaceFrom :: "string \<Rightarrow> string \<Rightarrow> string \<Rightarrow> string" where
  "replaceFrom old new [] = []"
| "replaceFrom old new (c # cs) =
     (if old \<noteq> [] \<and> prefix old (c # cs)
      then new @ replaceFrom old new (drop (length old) (c # cs))
      else c # replaceFrom old new cs)"
  by pat_completeness auto
termination
  by (relation "measure (\<lambda>(old, new, s). length s)") auto

definition ReplaceAll :: "string \<Rightarrow> string \<Rightarrow> string \<Rightarrow> string" where
  "ReplaceAll s old new =
     (if old = [] then new @ concat (map (\<lambda>c. c # new) s) else replaceFrom old new s)"

text \<open>\<^verbatim>\<open>strings.Join(elems, sep)\<close>.\<close>

fun joinWith :: "string \<Rightarrow> string list \<Rightarrow> string" where
  "joinWith sep [] = []"
| "joinWith sep [e] = e"
| "joinWith sep (e # es) = e @ sep @ joinWith sep es"

text \<open>\<^verbatim>\<open>strings.Split(s, "/")\<close>: the pieces between the slashes, empty ones included.\<close>

fun splitSlash :: "string \<Rightarrow> string list" where
  "splitSlash [] = [[]]"
| "splitSlash (c # cs) =
     (if c = CHR ''/'' then [] # splitSlash cs
      else (case splitSlash cs of [] \<Rightarrow> [[c]] | e # es \<Rightarrow> (c # e) # es))"

text \<open>
  \<^verbatim>\<open>filepath.Clean\<close> on a Unix host (the program runs on FreeBSD and Linux). Go walks
  the path byte by byte with a write index; the same result is computed here on the
  slash-separated elements: empty elements and \<^verbatim>\<open>.\<close> are dropped, \<^verbatim>\<open>..\<close>
  removes the element written last, is dropped at the root of a rooted path, and is kept
  at the front of a relative one.
\<close>

fun cleanElems :: "bool \<Rightarrow> string list \<Rightarrow> string list \<Rightarrow> string list" where
  "cleanElems rooted out [] = out"
| "cleanElems rooted out (e # es) =
     (if e = [] \<or> e = ''.'' then cleanElems rooted out es
      else if e = ''..'' then
        (if out \<noteq> [] \<and> last out \<noteq> ''..'' then cleanElems rooted (butlast out) es
         else if \<not> rooted then cleanElems rooted (out @ [''..'']) es
         else cleanElems rooted out es)
      else cleanElems rooted (out @ [e]) es)"

definition Clean :: "string \<Rightarrow> string" where
  "Clean path =
     (case path of
        [] \<Rightarrow> ''.''
      | c # _ \<Rightarrow>
          (let rooted = (c = CHR ''/'');
               body = joinWith ''/'' (cleanElems rooted [] (splitSlash path))
           in if rooted then CHR ''/'' # body
              else if body = [] then ''.'' else body))"

text \<open>
  \<^verbatim>\<open>filepath.Join(elem...)\<close>: the elements from the first non-empty one on are joined
  with a slash and cleaned; all elements empty gives the empty string.
\<close>

definition Join :: "string list \<Rightarrow> string" where
  "Join elem =
     (case dropWhile (\<lambda>e. e = []) elem of
        [] \<Rightarrow> []
      | es \<Rightarrow> Clean (joinWith ''/'' es))"

subsection \<open>Device records (device/device.go)\<close>

record device =
  Name :: string
  Path :: string
  Label :: string
  UUID :: string
  FSType :: string
  Size :: "64 word"
  MountPoint :: string
  IsMounted :: bool
  IsEncrypted :: bool
  IsUnlocked :: bool
  IsPartition :: bool
  IsRemovable :: bool
  PartitionNum :: int

text \<open>The zero value of the struct, as a composite literal leaves the fields it omits.\<close>

definition zeroDevice :: device where
  "zeroDevice = \<lparr> Name = [], Path = [], Label = [], UUID = [], FSType = [], Size = 0,
     MountPoint = [], IsMounted = False, IsEncrypted = False, IsUnlocked = False,
     IsPartition = False, IsRemovable = False, PartitionNum = 0 \<rparr>"

text \<open>
  A slice expression \<^verbatim>\<open>s[:n]\<close> on a string panics when \<^verbatim>\<open>n > len(s)\<close>.
\<close>

datatype panic = SliceBoundsOutOfRange nat nat

definition sliceTo :: "string \<Rightarrow> nat \<Rightarrow> panic + string" where
  "sliceTo s n = (if n \<le> length s then Inr (take n s) else Inl (SliceBoundsOutOfRange n (length s)))"

text \<open>\<^verbatim>\<open>GetDisplayName\<close>: the label, else \<^verbatim>\<open>UUID[:8] + "..."\<close>, else the name.\<close>

definition GetDisplayName :: "device \<Rightarrow> panic + string" where
  "GetDisplayName d =
     (if Label d \<noteq> [] then Inr (Label d)
      else if UUID d \<noteq> [] then
        (case sliceTo (UUID d) 8 of Inl p \<Rightarrow> Inl p | Inr u \<Rightarrow> Inr (u @ ''...''))
      else Inr (Name d))"

text \<open>
  \<^verbatim>\<open>GetMountDirectory\<close>: the display name with \<^verbatim>\<open>/\<close> and the space replaced by
  \<^verbatim>\<open>_\<close>, joined to the base directory.
\<close>

definition GetMountDirectory :: "device \<Rightarrow> string \<Rightarrow> panic + string" where
  "GetMountDirectory d base =
     (case GetDisplayName d of
        Inl p \<Rightarrow> Inl p
      | Inr name \<Rightarrow>
          (let name1 = ReplaceAll name ''/'' ''_'';
               name2 = ReplaceAll name1 '' '' ''_''
           in Inr (Join [base, name2])))"

subsection \<open>Configuration (config/config.go)\<close>

text \<open>
  The fields of \<^verbatim>\<open>Config\<close> that the daemon reads. \<^verbatim>\<open>float64\<close> settings are
  idealised as reals; a \<^verbatim>\<open>*bool\<close> is an optional boolean; the record fields of
  \<^verbatim>\<open>GELIConfig\<close> carry the prefix \<open>GELI\<close> where the name is taken already.
\<close>

record NotificationConfig =
  Enabled :: bool
  DeviceMounted :: real
  DeviceUnmounted :: real
  DeviceAdded :: real
  DeviceRemoved :: real
  DeviceUnlocked :: real
  JobFailed :: real

record DeviceConfig =
  IDLabel :: string
  IDUUID :: string
  DevicePath :: string
  Ignore :: bool
  DevAutomount :: "bool option"
  Options :: "string list"

record GELIConfig =
  GELIEnabled :: bool
  PasswordCmd :: string
  KeyFiles :: "string \<rightharpoonup> string"

record config =
  Automount :: bool
  MountBase :: string
  FileManager :: string
  Notifications :: NotificationConfig
  Devices :: "DeviceConfig list"
  EventHooks :: "string \<rightharpoonup> string"
  MountOptionsDefault :: "string \<rightharpoonup> string list"
  GELI :: GELIConfig

text \<open>\<^verbatim>\<open>GetDeviceConfig\<close>: the first entry that matches by label, UUID or path.\<close>

fun GetDeviceConfig :: "DeviceConfig list \<Rightarrow> string \<Rightarrow> string \<Rightarrow> string \<Rightarrow> DeviceConfig option" where
  "GetDeviceConfig [] label uuid path = None"
| "GetDeviceConfig (dev # devs) label uuid path =
     (if IDLabel dev \<noteq> [] \<and> IDLabel dev = label then Some dev
      else if IDUUID dev \<noteq> [] \<and> IDUUID dev = uuid then Some dev
      else if DevicePath dev \<noteq> [] \<and> DevicePath dev = path then Some dev
      else GetDeviceConfig devs label uuid path)"

definition ShouldIgnoreDevice :: "config \<Rightarrow> string \<Rightarrow> string \<Rightarrow> string \<Rightarrow> bool" where
  "ShouldIgnoreDevice c label uuid path =
     (case GetDeviceConfig (Devices c) label uuid path of
        Some devCfg \<Rightarrow> Ignore devCfg
      | None \<Rightarrow> False)"

definition ShouldAutomountDevice :: "config \<Rightarrow> string \<Rightarrow> string \<Rightarrow> string \<Rightarrow> bool" where
  "ShouldAutomountDevice c label uuid path =
     (case GetDeviceConfig (Devices c) label uuid path of
        Some devCfg \<Rightarrow> (case DevAutomount devCfg of Some b \<Rightarrow> b | None \<Rightarrow> Automount c)
      | None \<Rightarrow> Automount c)"

definition GetMountOptions :: "config \<Rightarrow> string \<Rightarrow> string \<Rightarrow> string \<Rightarrow> string \<Rightarrow> string list" where
  "GetMountOptions c fstype label uuid path =
     (case GetDeviceConfig (Devices c) label uuid path of
        Some devCfg \<Rightarrow>
          (if Options devCfg \<noteq> [] then Options devCfg
           else (case MountOptionsDefault c fstype of Some opts \<Rightarrow> opts | None \<Rightarrow> []))
      | None \<Rightarrow> (case MountOptionsDefault c fstype of Some opts \<Rightarrow> opts | None \<Rightarrow> []))"

subsection \<open>Errors, results and the daemon's view of the operating system\<close>

text \<open>
  Every \<^verbatim>\<open>fmt.Errorf\<close> of the two packages is a constructor; \<open>OSError\<close> is an error
  that the operating system or an external tool reported, by its text; a constructor with
  an \<open>error\<close> argument wraps it (\<^verbatim>\<open>%w\<close>), a string argument after it is the tool's
  output.
\<close>

datatype error =
    OSError string
  | UnsupportedOS string
  | ListDisksFailed error
  | ReadSysBlockFailed error
  | ScanFailed error
  | AlreadyMounted string
  | UnlockFailed error
  | MkdirFailed error
  | MountFailed error string
  | NotMounted
  | UnmountFailed error string
  | GELIDisabled
  | GetPasswordFailed error
  | GeliAttachFailed error string

text \<open>
  A Go function that returns \<^verbatim>\<open>(T, error)\<close> returns here \<open>Ok v\<close> for a nil error and
  \<open>Fail e\<close> otherwise; a function that returns only \<^verbatim>\<open>error\<close> returns \<open>Ok ()\<close>
  for nil. \<open>Panic\<close> is a run-time panic that unwinds the caller.
\<close>

datatype 'a res = Ok 'a | Fail error | Panic panic

definition panicked :: "'a res \<Rightarrow> bool" where
  "panicked r = (case r of Panic p \<Rightarrow> True | _ \<Rightarrow> False)"

text \<open>The lines the daemon writes with \<^verbatim>\<open>log.Printf\<close>, one constructor for each format.\<close>

datatype logline =
    LogScanFailed error
  | LogDeviceAdded string string
  | LogIgnoring string
  | LogFailedAutomount string error
  | LogDeviceRemoved string
  | LogFailedUnmount string error
  | LogFailedMount string error
  | LogMounting string string string
  | LogMounted string string
  | LogUnmounting string string
  | LogUnmounted string
  | LogUnlocking string
  | LogUnlocked string
  | LogHook string string

text \<open>
  What the daemon does to the outside, in the order in which it does it. \<open>Exec\<close> runs an
  external command to its end (\<^verbatim>\<open>Output\<close>, \<^verbatim>\<open>CombinedOutput\<close>) with the arguments
  and the standard input given; \<open>Spawn\<close> starts a command without waiting for it (a
  goroutine, \<^verbatim>\<open>cmd.Start\<close>); \<open>ReadLine\<close> reads a line from the terminal;
  \<open>Notify\<close> is \<^verbatim>\<open>notify.Send\<close> with title and text and with the configured
  number \<open>X\<close> of seconds from which the code computes the timeout \<^verbatim>\<open>int(X*1000)\<close>
  in floating point (that arithmetic is not unfolded: the trace keeps \<open>X\<close>);
  \<open>ScanDevices\<close> marks a call of the device manager's \<^verbatim>\<open>Scan\<close>.
\<close>

datatype action =
    Exec string "string list" "string option"
  | Spawn string "string list"
  | MkdirAll string
  | Remove string
  | ReadLine
  | Print string
  | Notify string string real
  | Log logline
  | ScanDevices

text \<open>The answer to an action: success with the output read, or the error and the output.\<close>

datatype outcome = Success string | Failure string string

subsection \<open>Scanning for devices (device/device.go)\<close>

text \<open>
  One scan sees the operating system through the record below: the build's
  \<^verbatim>\<open>runtime.GOOS\<close>, the result of each external command (\<open>Inl\<close> the error of
  \<^verbatim>\<open>cmd.Output\<close>, \<open>Inr\<close> the standard output) and of each read of a directory or a
  file. The text parsers and the per-partition probes of the package return no error in
  the source; they are not unfolded here and their results are fields of the record as
  well: \<^verbatim>\<open>parseGeomDiskList\<close> and \<^verbatim>\<open>parseLsblkJSON\<close> on the text they are given,
  the row loop of \<^verbatim>\<open>getPartitions\<close> (with its probes of each partition) on the disk
  name and the text of \<^verbatim>\<open>gpart\<close>, the \<^verbatim>\<open>camcontrol\<close> test of
  \<^verbatim>\<open>isRemovableDevice\<close> on the disk name, and \<open>probeLinux\<close>, the calls
  \<^verbatim>\<open>detectFilesystemLinux(part); checkMountStatus(part)\<close> of
  \<^verbatim>\<open>findLinuxPartitions\<close>, which fill in fields of the record they are given.
\<close>

record scan_env =
  GOOS :: string
  geomDiskList :: "string + string"
  gpartShow :: "string \<Rightarrow> string + string"
  lsblkJSON :: "string + string"
  readDir :: "string \<Rightarrow> string + string list"
  readFile :: "string \<Rightarrow> string + string"
  camcontrolUSB :: "string \<Rightarrow> bool"
  parseGeomDiskList :: "string \<Rightarrow> device list"
  gpartRows :: "string \<Rightarrow> string \<Rightarrow> device list"
  parseLsblkJSON :: "string \<Rightarrow> device list"
  probeLinux :: "device \<Rightarrow> device"

text \<open>
  \<^verbatim>\<open>strings.TrimSpace\<close> removes the white-space runes at both ends of a string. Go
  reads the bytes as UTF-8, and its white space (\<^verbatim>\<open>unicode.IsSpace\<close>) is U+0009 to
  U+000D, U+0020, U+0085, U+00A0, U+1680, U+2000 to U+200A, U+2028, U+2029, U+202F, U+205F
  and U+3000; \<open>spaceRunes\<close> lists their encodings. Bytes that start or end no such
  encoding are kept (an invalid byte reads as U+FFFD, which is no white space).
\<close>

definition spaceRunes :: "string list" where
  "spaceRunes =
     [[CHR 0x09], [CHR 0x0A], [CHR 0x0B], [CHR 0x0C], [CHR 0x0D], [CHR 0x20],
      [CHR 0xC2, CHR 0x85], [CHR 0xC2, CHR 0xA0], [CHR 0xE1, CHR 0x9A, CHR 0x80],
      [CHR 0xE2, CHR 0x80, CHR 0x80], [CHR 0xE2, CHR 0x80, CHR 0x81],
      [CHR 0xE2, CHR 0x80, CHR 0x82], [CHR 0xE2, CHR 0x80, CHR 0x83],
      [CHR 0xE2, CHR 0x80, CHR 0x84], [CHR 0xE2, CHR 0x80, CHR 0x85],
      [CHR 0xE2, CHR 0x80, CHR 0x86], [CHR 0xE2, CHR 0x80, CHR 0x87],
      [CHR 0xE2, CHR 0x80, CHR 0x88], [CHR 0xE2, CHR 0x80, CHR 0x89],
      [CHR 0xE2, CHR 0x80, CHR 0x8A], [CHR 0xE2, CHR 0x80, CHR 0xA8],
      [CHR 0xE2, CHR 0x80, CHR 0xA9], [CHR 0xE2, CHR 0x80, CHR 0xAF],
      [CHR 0xE2, CHR 0x81, CHR 0x9F], [CHR 0xE3, CHR 0x80, CHR 0x80]]"

definition leadingSpace :: "string \<Rightarrow> nat" where
  "leadingSpace s = (case find (\<lambda>e. prefix e s) spaceRunes of None \<Rightarrow> 0 | Some e \<Rightarrow> length e)"

definition trailingSpace :: "string \<Rightarrow> nat" where
  "trailingSpace s = (case find (\<lambda>e. suffix e s) spaceRunes of None \<Rightarrow> 0 | Some e \<Rightarrow> length e)"

function trimLeft :: "string \<Rightarrow> string" where
  "trimLeft s = (if leadingSpace s = 0 then s else trimLeft (drop (leadingSpace s) s))"
  by pat_completeness auto
termination
proof (relation "measure length")
  fix s :: string
  assume "leadingSpace s \<noteq> 0"
  then obtain e where "find (\<lambda>e. prefix e s) spaceRunes = Some e" and "e \<noteq> []"
    by (auto simp add: leadingSpace_def split: option.splits)
  then have "prefix e s" and "e \<noteq> []"
    by (auto simp add: find_Some_iff)
  then have "s \<noteq> []"
    by auto
  with \<open>leadingSpace s \<noteq> 0\<close> show "(drop (leadingSpace s) s, s) \<in> measure length"
    by simp
qed simp

function trimRight :: "string \<Rightarrow> string" where
  "trimRight s =
     (if trailingSpace s = 0 then s else trimRight (take (length s - trailingSpace s) s))"
  by pat_completeness auto
termination
proof (relation "measure length")
  fix s :: string
  assume "trailingSpace s \<noteq> 0"
  then obtain e where "find (\<lambda>e. suffix e s) spaceRunes = Some e" and "e \<noteq> []"
    by (auto simp add: trailingSpace_def split: option.splits)
  then have "suffix e s" and "e \<noteq> []"
    by (auto simp add: find_Some_iff)
  then have "s \<noteq> []"
    by auto
  with \<open>trailingSpace s \<noteq> 0\<close> show "(take (length s - trailingSpace s) s, s) \<in> measure length"
    by simp
qed simp

declare trimLeft.simps [simp del] trimRight.simps [simp del]

definition TrimSpace :: "string \<Rightarrow> string" where
  "TrimSpace s = trimRight (trimLeft s)"

text \<open>
  \<^verbatim>\<open>strconv.ParseUint(s, 10, 64)\<close>: a non-empty string of decimal digits whose value
  fits 64 bits; anything else is an error.
\<close>

definition isDigit :: "char \<Rightarrow> bool" where
  "isDigit c = (48 \<le> (of_char c :: int) \<and> (of_char c :: int) \<le> 57)"

definition ParseUint :: "string \<Rightarrow> 64 word option" where
  "ParseUint s =
     (if s = [] \<or> \<not> list_all isDigit s then None
      else (let n = foldl (\<lambda>a c. 10 * a + (of_char c - 48)) (0::int) s
            in if n < 2 ^ 64 then Some (word_of_int n) else None))"

definition isRemovableDevice :: "scan_env \<Rightarrow> string \<Rightarrow> bool" where
  "isRemovableDevice env name =
     (if prefix ''da'' name \<or> prefix ''umass'' name then True else camcontrolUSB env name)"

text \<open>
  \<^verbatim>\<open>getPartitions\<close> returns a nil error on both of its paths: a failing
  \<^verbatim>\<open>gpart\<close> gives the empty list.
\<close>

definition getPartitions :: "scan_env \<Rightarrow> string \<Rightarrow> error + device list" where
  "getPartitions env diskName =
     (case gpartShow env diskName of
        Inl e \<Rightarrow> Inr []
      | Inr output \<Rightarrow> Inr (gpartRows env diskName output))"

fun scanDisks :: "scan_env \<Rightarrow> device list \<Rightarrow> device list \<Rightarrow> device list" where
  "scanDisks env devices [] = devices"
| "scanDisks env devices (disk # disks) =
     (let isRemovable = isRemovableDevice env (Name disk);
          disk1 = disk\<lparr>IsRemovable := isRemovable\<rparr>
      in if isRemovable then
           (case getPartitions env (Name disk1) of
              Inr partitions \<Rightarrow> scanDisks env (devices @ [disk1] @ partitions) disks
            | Inl e \<Rightarrow> scanDisks env (devices @ [disk1]) disks)
         else scanDisks env devices disks)"

definition scanFreeBSD :: "scan_env \<Rightarrow> error + device list" where
  "scanFreeBSD env =
     (case geomDiskList env of
        Inl e \<Rightarrow> Inl (ListDisksFailed (OSError e))
      | Inr output \<Rightarrow> Inr (scanDisks env [] (parseGeomDiskList env output)))"

text \<open>
  \<^verbatim>\<open>findLinuxPartitions\<close>: the entries of the disk's directory under
  \<^verbatim>\<open>/sys/block\<close> whose name starts with the disk's name and is not that name.
\<close>

fun partitionEntries ::
    "scan_env \<Rightarrow> string \<Rightarrow> string \<Rightarrow> device list \<Rightarrow> string list \<Rightarrow> device list" where
  "partitionEntries env deviceName deviceDir partitions [] = partitions"
| "partitionEntries env deviceName deviceDir partitions (partName # entries) =
     (if \<not> prefix deviceName partName
        then partitionEntries env deviceName deviceDir partitions entries
      else if partName = deviceName
        then partitionEntries env deviceName deviceDir partitions entries
      else
        (let part = zeroDevice\<lparr>Name := partName, Path := ''/dev/'' @ partName,
                      IsPartition := True, IsRemovable := True\<rparr>;
             part1 = (case readFile env (Join [deviceDir, partName, ''size'']) of
                        Inl e \<Rightarrow> part
                      | Inr sizeData \<Rightarrow>
                          (case ParseUint (TrimSpace sizeData) of
                             None \<Rightarrow> part
                           | Some sectors \<Rightarrow> part\<lparr>Size := sectors * 512\<rparr>))
         in partitionEntries env deviceName deviceDir (partitions @ [probeLinux env part1])
              entries))"

definition findLinuxPartitions :: "scan_env \<Rightarrow> string \<Rightarrow> device list" where
  "findLinuxPartitions env deviceName =
     (let deviceDir = Join [''/sys/block'', deviceName]
      in case readDir env deviceDir of
           Inl e \<Rightarrow> []
         | Inr entries \<Rightarrow> partitionEntries env deviceName deviceDir [] entries)"

text \<open>
  \<^verbatim>\<open>scanLinuxFallback\<close>: an entry of \<^verbatim>\<open>/sys/block\<close> whose \<^verbatim>\<open>removable\<close>
  file cannot be read, or does not hold \<^verbatim>\<open>1\<close>, is passed over (\<^verbatim>\<open>continue\<close>).
\<close>

fun fallbackEntries :: "scan_env \<Rightarrow> device list \<Rightarrow> string list \<Rightarrow> device list" where
  "fallbackEntries env devices [] = devices"
| "fallbackEntries env devices (deviceName # entries) =
     (case readFile env (Join [''/sys/block'', deviceName, ''removable'']) of
        Inl e \<Rightarrow> fallbackEntries env devices entries
      | Inr removableData \<Rightarrow>
          if TrimSpace removableData \<noteq> ''1'' then fallbackEntries env devices entries
          else
            (let dev = zeroDevice\<lparr>Name := deviceName, Path := ''/dev/'' @ deviceName,
                         IsRemovable := True, IsPartition := False\<rparr>;
                 dev1 = (case readFile env (Join [''/sys/block'', deviceName, ''size'']) of
                           Inl e \<Rightarrow> dev
                         | Inr sizeData \<Rightarrow>
                             (case ParseUint (TrimSpace sizeData) of
                                None \<Rightarrow> dev
                              | Some sectors \<Rightarrow> dev\<lparr>Size := sectors * 512\<rparr>))
             in fallbackEntries env (devices @ [dev1] @ findLinuxPartitions env deviceName)
                  entries))"

definition scanLinuxFallback :: "scan_env \<Rightarrow> error + device list" where
  "scanLinuxFallback env =
     (case readDir env ''/sys/block'' of
        Inl e \<Rightarrow> Inl (ReadSysBlockFailed (OSError e))
      | Inr blockDevices \<Rightarrow> Inr (fallbackEntries env [] blockDevices))"

definition scanLinux :: "scan_env \<Rightarrow> error + device list" where
  "scanLinux env =
     (case lsblkJSON env of
        Inl e \<Rightarrow> scanLinuxFallback env
      | Inr output \<Rightarrow> Inr (filter IsRemovable (parseLsblkJSON env output)))"

text \<open>
  What one disk of the list of \<^verbatim>\<open>geom\<close>, and what one entry of
  \<^verbatim>\<open>/sys/block\<close>, adds to the list that a scan returns: nothing for a disk that is
  not removable; a removable disk, followed by the partitions that \<^verbatim>\<open>gpart\<close> shows,
  and by none when \<^verbatim>\<open>gpart\<close> fails; nothing for an entry whose \<^verbatim>\<open>removable\<close>
  file cannot be read or does not hold \<^verbatim>\<open>1\<close>; else the disk, its size 0 unless the
  \<^verbatim>\<open>size\<close> file can be read and parsed, followed by its partitions. The loops of
  \<^verbatim>\<open>scanFreeBSD\<close> and \<^verbatim>\<open>scanLinuxFallback\<close> are compared with these below.
\<close>

definition diskEntry :: "scan_env \<Rightarrow> device \<Rightarrow> device list" where
  "diskEntry env disk =
     (if isRemovableDevice env (Name disk) then
        disk\<lparr>IsRemovable := True\<rparr> #
          (case gpartShow env (Name disk) of
             Inl e \<Rightarrow> []
           | Inr output \<Rightarrow> gpartRows env (Name disk) output)
      else [])"

definition sysBlockEntry :: "scan_env \<Rightarrow> string \<Rightarrow> device list" where
  "sysBlockEntry env name =
     (case readFile env (Join [''/sys/block'', name, ''removable'']) of
        Inl e \<Rightarrow> []
      | Inr removableData \<Rightarrow>
          if TrimSpace removableData = ''1'' then
            zeroDevice\<lparr>Name := name, Path := ''/dev/'' @ name, IsRemovable := True,
              Size := (case readFile env (Join [''/sys/block'', name, ''size'']) of
                         Inl e \<Rightarrow> 0
                       | Inr sizeData \<Rightarrow>
                           (case ParseUint (TrimSpace sizeData) of
                              None \<Rightarrow> 0
                            | Some sectors \<Rightarrow> sectors * 512))\<rparr>
              # findLinuxPartitions env name
          else [])"

subsection \<open>The daemon's state and the world\<close>

text \<open>
  The Go code shares \<^verbatim>\<open>*device.Device\<close> pointers between the scan result, the
  manager's map and the daemon's \<^verbatim>\<open>mounted\<close> map, and it mutates the records through
  them: a pointer is a reference into a heap of records. The world answers an action from
  the actions so far, so the same command may fail once and succeed later.
\<close>

type_synonym ref = nat

record dstate =
  heap :: "ref \<Rightarrow> device"
  nextRef :: ref
  mgrDevices :: "string \<rightharpoonup> ref"
  mounted :: "string \<rightharpoonup> ref"
  trace :: "action list"

record world =
  answer :: "action list \<Rightarrow> action \<Rightarrow> outcome"
  scanEnv :: "action list \<Rightarrow> scan_env"

definition emit :: "action \<Rightarrow> dstate \<Rightarrow> dstate" where
  "emit a s = s\<lparr>trace := trace s @ [a]\<rparr>"

definition perform :: "world \<Rightarrow> action \<Rightarrow> dstate \<Rightarrow> outcome \<times> dstate" where
  "perform w a s = (answer w (trace s) a, emit a s)"

text \<open>
  \<^verbatim>\<open>Manager.Scan\<close>: the scan of the host's operating system, then every device found
  is entered in the manager's map under its path. The records are allocated when the scan
  returns them (no pointer to them exists before).
\<close>

fun allocDevices :: "device list \<Rightarrow> dstate \<Rightarrow> ref list \<times> dstate" where
  "allocDevices [] s = ([], s)"
| "allocDevices (d # ds) s =
     (let r = nextRef s;
          (rs, s1) = allocDevices ds (s\<lparr>heap := (heap s)(r := d), nextRef := Suc r\<rparr>)
      in (r # rs, s1))"

fun registerDevices :: "ref list \<Rightarrow> dstate \<Rightarrow> dstate" where
  "registerDevices [] s = s"
| "registerDevices (r # rs) s =
     registerDevices rs (s\<lparr>mgrDevices := (mgrDevices s)(Path (heap s r) \<mapsto> r)\<rparr>)"

definition Scan :: "scan_env \<Rightarrow> dstate \<Rightarrow> ref list res \<times> dstate" where
  "Scan env s =
     (case (if GOOS env = ''freebsd'' then scanFreeBSD env
            else if GOOS env = ''linux'' then scanLinux env
            else Inl (UnsupportedOS (GOOS env))) of
        Inl err \<Rightarrow> (Fail err, s)
      | Inr devs \<Rightarrow>
          (let (devices, s1) = allocDevices devs s
           in (Ok devices, registerDevices devices s1)))"

text \<open>The daemon's call \<^verbatim>\<open>d.deviceMgr.Scan()\<close>, against the world as it is then.\<close>

definition deviceMgrScan :: "world \<Rightarrow> dstate \<Rightarrow> ref list res \<times> dstate" where
  "deviceMgrScan w s = Scan (scanEnv w (trace s)) (emit ScanDevices s)"

subsection \<open>Notifications and event hooks (daemon/daemon.go)\<close>

text \<open>The text of an error, as \<^verbatim>\<open>%v\<close> prints it.\<close>

primrec errorText :: "error \<Rightarrow> string" where
  "errorText (OSError m) = m"
| "errorText (UnsupportedOS os) = ''unsupported operating system: '' @ os"
| "errorText (ListDisksFailed e) = ''failed to list disks: '' @ errorText e"
| "errorText (ReadSysBlockFailed e) = ''failed to read /sys/block: '' @ errorText e"
| "errorText (ScanFailed e) = ''failed to scan devices: '' @ errorText e"
| "errorText (AlreadyMounted mp) = ''device already mounted at '' @ mp"
| "errorText (UnlockFailed e) = ''failed to unlock device: '' @ errorText e"
| "errorText (MkdirFailed e) = ''failed to create mount point: '' @ errorText e"
| "errorText (MountFailed e out) = ''mount failed: '' @ errorText e @ '' (output: '' @ out @ '')''"
| "errorText NotMounted = ''device not mounted''"
| "errorText (UnmountFailed e out) = ''unmount failed: '' @ errorText e @ '' (output: '' @ out @ '')''"
| "errorText GELIDisabled = ''GELI support is disabled''"
| "errorText (GetPasswordFailed e) = ''failed to get password: '' @ errorText e"
| "errorText (GeliAttachFailed e out) = ''geli attach failed: '' @ errorText e @ '' (output: '' @ out @ '')''"

text \<open>
  The pattern \<^verbatim>\<open>if Notifications.Enabled && Notifications.X > 0 { notify.Send(title,
  fmt.Sprintf(..., dev.GetDisplayName(), ...), int(X*1000)) }\<close> that follows each
  transition; the display name is computed only when the notification is sent. The
  configured numbers are \<^verbatim>\<open>float64\<close> values, here the reals they denote.
\<close>

definition sendNotification ::
    "config \<Rightarrow> real \<Rightarrow> string \<Rightarrow> (string \<Rightarrow> string) \<Rightarrow> device \<Rightarrow> dstate \<Rightarrow> unit res \<times> dstate" where
  "sendNotification cfg secs title body dev s =
     (if Enabled (Notifications cfg) \<and> secs > 0 then
        (case GetDisplayName dev of
           Inl p \<Rightarrow> (Panic p, s)
         | Inr name \<Rightarrow> (Ok (), emit (Notify title (body name) secs) s))
      else (Ok (), s))"

text \<open>
  \<^verbatim>\<open>executeEventHook\<close>: the placeholders of the configured template are replaced by
  the device's attributes and the resulting text is handed to \<^verbatim>\<open>sh -c\<close> in a
  goroutine.
\<close>

definition executeEventHook :: "config \<Rightarrow> string \<Rightarrow> device \<Rightarrow> dstate \<Rightarrow> dstate" where
  "executeEventHook cfg event dev s =
     (case EventHooks cfg event of
        None \<Rightarrow> s
      | Some hookCmd \<Rightarrow>
          (let cmd1 = ReplaceAll hookCmd ''{device}'' (Path dev);
               cmd2 = ReplaceAll cmd1 ''{label}'' (Label dev);
               cmd3 = ReplaceAll cmd2 ''{uuid}'' (UUID dev);
               cmd = ReplaceAll cmd3 ''{mount_point}'' (MountPoint dev)
           in emit (Spawn ''sh'' [''-c'', cmd]) (emit (Log (LogHook event cmd)) s)))"

subsection \<open>Unlocking, mounting and unmounting (daemon/daemon.go)\<close>

definition getPassword :: "config \<Rightarrow> world \<Rightarrow> device \<Rightarrow> dstate \<Rightarrow> string res \<times> dstate" where
  "getPassword cfg w dev s =
     (if PasswordCmd (GELI cfg) \<noteq> [] then
        (case perform w (Exec ''sh'' [''-c'', PasswordCmd (GELI cfg)] None) s of
           (Failure err out, s1) \<Rightarrow> (Fail (OSError err), s1)
         | (Success out, s1) \<Rightarrow> (Ok (TrimSpace out), s1))
      else
        (case GetDisplayName dev of
           Inl p \<Rightarrow> (Panic p, s)
         | Inr name \<Rightarrow>
             (case perform w ReadLine (emit (Print (''Enter password for '' @ name @ '': '')) s) of
                (Failure err out, s1) \<Rightarrow> (Fail (OSError err), s1)
              | (Success password, s1) \<Rightarrow> (Ok (TrimSpace password), s1))))"

text \<open>The command that \<^verbatim>\<open>unlockDevice\<close> builds: with the keyfile, or with the password on standard input.\<close>

definition geliCommand :: "config \<Rightarrow> world \<Rightarrow> device \<Rightarrow> dstate \<Rightarrow> action res \<times> dstate" where
  "geliCommand cfg w dev s =
     (case KeyFiles (GELI cfg) (UUID dev) of
        Some keyfile \<Rightarrow> (Ok (Exec ''geli'' [''attach'', ''-k'', keyfile, Path dev] None), s)
      | None \<Rightarrow>
          (case getPassword cfg w dev s of
             (Fail err, s1) \<Rightarrow> (Fail (GetPasswordFailed err), s1)
           | (Panic p, s1) \<Rightarrow> (Panic p, s1)
           | (Ok password, s1) \<Rightarrow>
               (Ok (Exec ''geli'' [''attach'', Path dev] (Some (password @ [CHR 0x0A]))), s1)))"

definition unlockDevice :: "config \<Rightarrow> world \<Rightarrow> ref \<Rightarrow> dstate \<Rightarrow> unit res \<times> dstate" where
  "unlockDevice cfg w r s =
     (if \<not> GELIEnabled (GELI cfg) then (Fail GELIDisabled, s)
      else
        (case geliCommand cfg w (heap s r) (emit (Log (LogUnlocking (Path (heap s r)))) s) of
           (Fail err, s1) \<Rightarrow> (Fail err, s1)
         | (Panic p, s1) \<Rightarrow> (Panic p, s1)
         | (Ok cmd, s1) \<Rightarrow>
             (case perform w cmd s1 of
                (Failure err out, s2) \<Rightarrow> (Fail (GeliAttachFailed (OSError err) out), s2)
              | (Success out, s2) \<Rightarrow>
                  (let dev = (heap s2 r)\<lparr>IsUnlocked := True\<rparr>;
                       s3 = emit (Log (LogUnlocked (Path dev))) (s2\<lparr>heap := (heap s2)(r := dev)\<rparr>)
                   in sendNotification cfg (DeviceUnlocked (Notifications cfg)) ''Device Unlocked''
                        (\<lambda>name. name @ '' unlocked'') dev s3))))"

text \<open>
  \<^verbatim>\<open>mountDevice\<close> from the computation of the mount point on (the device is not
  mounted and, if encrypted, unlocked).
\<close>

definition mountArgs :: "string list \<Rightarrow> device \<Rightarrow> string \<Rightarrow> string list" where
  "mountArgs opts dev mountPoint =
     (if opts \<noteq> [] then [''-o'', joinWith '','' opts] else [])
     @ (if FSType dev \<noteq> [] \<and> FSType dev \<noteq> ''auto'' then [''-t'', FSType dev] else [])
     @ [Path dev, mountPoint]"

definition mountAt :: "config \<Rightarrow> world \<Rightarrow> ref \<Rightarrow> dstate \<Rightarrow> unit res \<times> dstate" where
  "mountAt cfg w r s =
     (case GetMountDirectory (heap s r) (MountBase cfg) of
        Inl p \<Rightarrow> (Panic p, s)
      | Inr mountPoint \<Rightarrow>
          (case perform w (MkdirAll mountPoint) s of
             (Failure err out, s1) \<Rightarrow> (Fail (MkdirFailed (OSError err)), s1)
           | (Success out, s1) \<Rightarrow>
               (let dev = heap s1 r;
                    opts = GetMountOptions cfg (FSType dev) (Label dev) (UUID dev) (Path dev);
                    s2 = emit (Log (LogMounting (Path dev) mountPoint (FSType dev))) s1
                in case perform w (Exec ''mount'' (mountArgs opts dev mountPoint) None) s2 of
                     (Failure err output, s3) \<Rightarrow> (Fail (MountFailed (OSError err) output), s3)
                   | (Success output, s3) \<Rightarrow>
                       (let dev1 = dev\<lparr>MountPoint := mountPoint, IsMounted := True\<rparr>;
                            s4 = s3\<lparr>heap := (heap s3)(r := dev1),
                                    mounted := (mounted s3)(Path dev1 \<mapsto> r)\<rparr>;
                            s5 = emit (Log (LogMounted (Path dev1) mountPoint)) s4
                        in case sendNotification cfg (DeviceMounted (Notifications cfg))
                                  ''Device Mounted''
                                  (\<lambda>name. name @ '' mounted at '' @ mountPoint) dev1 s5 of
                             (Panic p, s6) \<Rightarrow> (Panic p, s6)
                           | (_, s6) \<Rightarrow>
                               (let s7 = executeEventHook cfg ''device_mounted'' dev1 s6
                                in (Ok (), if FileManager cfg \<noteq> []
                                           then emit (Spawn (FileManager cfg) [mountPoint]) s7
                                           else s7))))))"

definition mountDevice :: "config \<Rightarrow> world \<Rightarrow> ref \<Rightarrow> dstate \<Rightarrow> unit res \<times> dstate" where
  "mountDevice cfg w r s =
     (if IsMounted (heap s r) then (Fail (AlreadyMounted (MountPoint (heap s r))), s)
      else if IsEncrypted (heap s r) \<and> \<not> IsUnlocked (heap s r) then
        (case unlockDevice cfg w r s of
           (Fail err, s1) \<Rightarrow> (Fail (UnlockFailed err), s1)
         | (Panic p, s1) \<Rightarrow> (Panic p, s1)
         | (Ok u, s1) \<Rightarrow> mountAt cfg w r s1)
      else mountAt cfg w r s)"

definition unmountDevice :: "config \<Rightarrow> world \<Rightarrow> ref \<Rightarrow> dstate \<Rightarrow> unit res \<times> dstate" where
  "unmountDevice cfg w r s =
     (if \<not> IsMounted (heap s r) then (Fail NotMounted, s)
      else
        (let dev = heap s r;
             s1 = emit (Log (LogUnmounting (Path dev) (MountPoint dev))) s
         in case perform w (Exec ''umount'' [MountPoint dev] None) s1 of
              (Failure err output, s2) \<Rightarrow> (Fail (UnmountFailed (OSError err) output), s2)
            | (Success output, s2) \<Rightarrow>
                (let mountPoint = MountPoint dev;
                     dev1 = dev\<lparr>MountPoint := [], IsMounted := False\<rparr>;
                     s3 = s2\<lparr>heap := (heap s2)(r := dev1),
                             mounted := (mounted s2)(Path dev1 := None)\<rparr>;
                     s4 = snd (perform w (Remove mountPoint) s3);
                     s5 = emit (Log (LogUnmounted (Path dev1))) s4
                 in case sendNotification cfg (DeviceUnmounted (Notifications cfg))
                           ''Device Unmounted'' (\<lambda>name. name @ '' unmounted'') dev1 s5 of
                      (Panic p, s6) \<Rightarrow> (Panic p, s6)
                    | (_, s6) \<Rightarrow> (Ok (), executeEventHook cfg ''device_unmounted'' dev1 s6))))"

text \<open>
  The two handlers. \<^verbatim>\<open>onDeviceAdded\<close> logs the device with its display name, stops
  for an ignored device, notifies, runs the \<^verbatim>\<open>device_added\<close> hook and mounts a
  partition when the configuration says so; \<^verbatim>\<open>onDeviceRemoved\<close> logs the path,
  unmounts the device that \<^verbatim>\<open>mounted\<close> holds for it, and notifies.
\<close>

definition onDeviceAdded :: "config \<Rightarrow> world \<Rightarrow> ref \<Rightarrow> dstate \<Rightarrow> unit res \<times> dstate" where
  "onDeviceAdded cfg w r s =
     (let dev = heap s r
      in case GetDisplayName dev of
           Inl p \<Rightarrow> (Panic p, s)
         | Inr name \<Rightarrow>
             (let s1 = emit (Log (LogDeviceAdded (Path dev) name)) s
              in if ShouldIgnoreDevice cfg (Label dev) (UUID dev) (Path dev)
                 then (Ok (), emit (Log (LogIgnoring (Path dev))) s1)
                 else
                   (case sendNotification cfg (DeviceAdded (Notifications cfg)) ''Device Added''
                           (\<lambda>name. name @ '' connected'') dev s1 of
                      (Panic p, s2) \<Rightarrow> (Panic p, s2)
                    | (_, s2) \<Rightarrow>
                        (let s3 = executeEventHook cfg ''device_added'' dev s2
                         in if IsPartition dev
                               \<and> ShouldAutomountDevice cfg (Label dev) (UUID dev) (Path dev)
                            then
                              (case mountDevice cfg w r s3 of
                                 (Panic p, s4) \<Rightarrow> (Panic p, s4)
                               | (Ok u, s4) \<Rightarrow> (Ok (), s4)
                               | (Fail err, s4) \<Rightarrow>
                                   (case sendNotification cfg (JobFailed (Notifications cfg))
                                           ''Mount Failed''
                                           (\<lambda>name. ''Failed to mount '' @ name @ '': ''
                                                     @ errorText err)
                                           (heap s4 r)
                                           (emit (Log (LogFailedAutomount (Path (heap s4 r)) err)) s4) of
                                      (Panic p, s5) \<Rightarrow> (Panic p, s5)
                                    | (_, s5) \<Rightarrow> (Ok (), s5)))
                            else (Ok (), s3)))))"

definition onDeviceRemoved :: "config \<Rightarrow> world \<Rightarrow> string \<Rightarrow> dstate \<Rightarrow> unit res \<times> dstate" where
  "onDeviceRemoved cfg w path s =
     (let s1 = emit (Log (LogDeviceRemoved path)) s;
          dev = mounted s1 path
      in case (case dev of
                 None \<Rightarrow> (Ok (), s1)
               | Some r \<Rightarrow>
                   (case unmountDevice cfg w r s1 of
                      (Panic p, s2) \<Rightarrow> (Panic p, s2)
                    | (Fail err, s2) \<Rightarrow> (Ok (), emit (Log (LogFailedUnmount path err)) s2)
                    | (Ok u, s2) \<Rightarrow> (Ok (), s2))) of
           (Panic p, s3) \<Rightarrow> (Panic p, s3)
         | (_, s3) \<Rightarrow>
             if Enabled (Notifications cfg) \<and> DeviceRemoved (Notifications cfg) > 0 then
               (case dev of
                  None \<Rightarrow>
                    (Ok (), emit (Notify ''Device Removed'' (path @ '' disconnected'')
                                   (DeviceRemoved (Notifications cfg))) s3)
                | Some r \<Rightarrow>
                    (case GetDisplayName (heap s3 r) of
                       Inl p \<Rightarrow> (Panic p, s3)
                     | Inr displayName \<Rightarrow>
                         (Ok (), emit (Notify ''Device Removed'' (displayName @ '' disconnected'')
                                   (DeviceRemoved (Notifications cfg))) s3)))
             else (Ok (), s3))"

text \<open>
  \<^verbatim>\<open>MountAll\<close>: a scan, then a mount attempt for every partition that is not mounted.
  A failed attempt is logged and the loop goes on; the function returns nil after the loop.
\<close>

fun mountEach :: "config \<Rightarrow> world \<Rightarrow> ref list \<Rightarrow> dstate \<Rightarrow> unit res \<times> dstate" where
  "mountEach cfg w [] s = (Ok (), s)"
| "mountEach cfg w (r # rs) s =
     (if IsPartition (heap s r) \<and> \<not> IsMounted (heap s r) then
        (case mountDevice cfg w r s of
           (Panic p, s1) \<Rightarrow> (Panic p, s1)
         | (Fail err, s1) \<Rightarrow>
             mountEach cfg w rs (emit (Log (LogFailedMount (Path (heap s1 r)) err)) s1)
         | (Ok u, s1) \<Rightarrow> mountEach cfg w rs s1)
      else mountEach cfg w rs s)"

definition MountAll :: "config \<Rightarrow> world \<Rightarrow> dstate \<Rightarrow> unit res \<times> dstate" where
  "MountAll cfg w s =
     (case deviceMgrScan w s of
        (Fail err, s1) \<Rightarrow> (Fail (ScanFailed err), s1)
      | (Panic p, s1) \<Rightarrow> (Panic p, s1)
      | (Ok devices, s1) \<Rightarrow> mountEach cfg w devices s1)"

text \<open>
  What it is to attempt every device of a list, each on its own: \<^verbatim>\<open>mountDevice\<close>
  is called on every device of the list, in the order of the list and in the state that
  the attempt before it left; an attempt that fails is logged with its error and the next
  device is attempted. \<^verbatim>\<open>MountAll\<close> is compared with this below.
\<close>

fun attemptEach :: "config \<Rightarrow> world \<Rightarrow> ref list \<Rightarrow> dstate \<Rightarrow> unit res \<times> dstate" where
  "attemptEach cfg w [] s = (Ok (), s)"
| "attemptEach cfg w (r # rs) s =
     (case mountDevice cfg w r s of
        (Ok u, s1) \<Rightarrow> attemptEach cfg w rs s1
      | (Fail err, s1) \<Rightarrow>
          attemptEach cfg w rs (emit (Log (LogFailedMount (Path (heap s1 r)) err)) s1)
      | (Panic p, s1) \<Rightarrow> (Panic p, s1))"

subsection \<open>The poll-diff loop (daemon/daemon.go, pollDevices)\<close>

text \<open>
  One tick of the ticker, first as the two loops alone. \<^verbatim>\<open>knownDevices\<close> and
  \<^verbatim>\<open>currentDevices\<close> are \<^verbatim>\<open>map[string]bool\<close>; reading a missing key gives false.
  Here the calls \<^verbatim>\<open>d.onDeviceAdded(dev)\<close> and \<^verbatim>\<open>d.onDeviceRemoved(path)\<close> are
  only listed, as events in the order of the calls; \<open>pollDevicesTick\<close> below runs the
  handlers in their place. Go does not fix the order in which \<^verbatim>\<open>range\<close> visits the
  keys of a map: the second loop takes it as the list \<open>order\<close>, which is
  \<open>rangeOrder\<close> for the map when it names every key once.
\<close>

datatype event = Added device | Removed string

definition isSet :: "(string \<rightharpoonup> bool) \<Rightarrow> string \<Rightarrow> bool" where
  "isSet m k = (case m k of Some b \<Rightarrow> b | None \<Rightarrow> False)"

definition rangeOrder :: "string list \<Rightarrow> (string \<rightharpoonup> bool) \<Rightarrow> bool" where
  "rangeOrder order m = (distinct order \<and> set order = dom m)"

fun checkNew ::
    "device list \<Rightarrow> (string \<rightharpoonup> bool) \<Rightarrow> (string \<rightharpoonup> bool) \<Rightarrow> event list
       \<Rightarrow> (string \<rightharpoonup> bool) \<times> (string \<rightharpoonup> bool) \<times> event list" where
  "checkNew [] currentDevices knownDevices evs = (currentDevices, knownDevices, evs)"
| "checkNew (dev # devices) currentDevices knownDevices evs =
     (if \<not> isSet knownDevices (Path dev)
      then checkNew devices (currentDevices(Path dev \<mapsto> True))
             (knownDevices(Path dev \<mapsto> True)) (evs @ [Added dev])
      else checkNew devices (currentDevices(Path dev \<mapsto> True)) knownDevices evs)"

fun checkRemoved ::
    "string list \<Rightarrow> (string \<rightharpoonup> bool) \<Rightarrow> (string \<rightharpoonup> bool) \<Rightarrow> event list
       \<Rightarrow> (string \<rightharpoonup> bool) \<times> event list" where
  "checkRemoved [] currentDevices knownDevices evs = (knownDevices, evs)"
| "checkRemoved (path # paths) currentDevices knownDevices evs =
     (if \<not> isSet currentDevices path
      then checkRemoved paths currentDevices (knownDevices(path := None)) (evs @ [Removed path])
      else checkRemoved paths currentDevices knownDevices evs)"

text \<open>
  A failed scan is logged and the tick ends (\<^verbatim>\<open>continue\<close>): no event, the known
  devices as they were.
\<close>

definition pollTick ::
    "error + device list \<Rightarrow> string list \<Rightarrow> (string \<rightharpoonup> bool) \<Rightarrow> (string \<rightharpoonup> bool) \<times> event list" where
  "pollTick scan order knownDevices =
     (case scan of
        Inl err \<Rightarrow> (knownDevices, [])
      | Inr devices \<Rightarrow>
          (case checkNew devices Map.empty knownDevices [] of
             (currentDevices, knownDevices1, evs) \<Rightarrow>
               checkRemoved order currentDevices knownDevices1 evs))"

text \<open>The known devices after the first loop of a tick: the map that the second loop ranges over.\<close>

definition knownAfterNew :: "device list \<Rightarrow> (string \<rightharpoonup> bool) \<Rightarrow> (string \<rightharpoonup> bool)" where
  "knownAfterNew devices knownDevices = fst (snd (checkNew devices Map.empty knownDevices []))"

text \<open>
  The same tick with the daemon around it: the scan is the device manager's, the devices
  are references, and the handlers run where the loops call them. A panic of a handler
  ends the tick (and the daemon); a failed scan is logged.
\<close>

fun handleNew ::
    "config \<Rightarrow> world \<Rightarrow> ref list \<Rightarrow> (string \<rightharpoonup> bool) \<Rightarrow> (string \<rightharpoonup> bool) \<Rightarrow> dstate
       \<Rightarrow> ((string \<rightharpoonup> bool) \<times> (string \<rightharpoonup> bool)) res \<times> dstate" where
  "handleNew cfg w [] currentDevices knownDevices s = (Ok (currentDevices, knownDevices), s)"
| "handleNew cfg w (dev # devices) currentDevices knownDevices s =
     (if \<not> isSet knownDevices (Path (heap s dev)) then
        (case onDeviceAdded cfg w dev s of
           (Panic p, s1) \<Rightarrow> (Panic p, s1)
         | (_, s1) \<Rightarrow>
             handleNew cfg w devices (currentDevices(Path (heap s dev) \<mapsto> True))
               (knownDevices(Path (heap s1 dev) \<mapsto> True)) s1)
      else handleNew cfg w devices (currentDevices(Path (heap s dev) \<mapsto> True)) knownDevices s)"

fun handleRemoved ::
    "config \<Rightarrow> world \<Rightarrow> string list \<Rightarrow> (string \<rightharpoonup> bool) \<Rightarrow> (string \<rightharpoonup> bool) \<Rightarrow> dstate
       \<Rightarrow> (string \<rightharpoonup> bool) res \<times> dstate" where
  "handleRemoved cfg w [] currentDevices knownDevices s = (Ok knownDevices, s)"
| "handleRemoved cfg w (path # paths) currentDevices knownDevices s =
     (if \<not> isSet currentDevices path then
        (case onDeviceRemoved cfg w path s of
           (Panic p, s1) \<Rightarrow> (Panic p, s1)
         | (_, s1) \<Rightarrow> handleRemoved cfg w paths currentDevices (knownDevices(path := None)) s1)
      else handleRemoved cfg w paths currentDevices knownDevices s)"

definition pollDevicesTick ::
    "config \<Rightarrow> world \<Rightarrow> string list \<Rightarrow> (string \<rightharpoonup> bool) \<Rightarrow> dstate
       \<Rightarrow> (string \<rightharpoonup> bool) res \<times> dstate" where
  "pollDevicesTick cfg w order knownDevices s =
     (case deviceMgrScan w s of
        (Fail err, s1) \<Rightarrow> (Ok knownDevices, emit (Log (LogScanFailed err)) s1)
      | (Panic p, s1) \<Rightarrow> (Panic p, s1)
      | (Ok devices, s1) \<Rightarrow>
          (case handleNew cfg w devices Map.empty knownDevices s1 of
             (Panic p, s2) \<Rightarrow> (Panic p, s2)
           | (Fail err, s2) \<Rightarrow> (Fail err, s2)
           | (Ok (currentDevices, knownDevices1), s2) \<Rightarrow>
               handleRemoved cfg w order currentDevices knownDevices1 s2))"

subsection \<open>What the trace shows\<close>

text \<open>
  The handler calls as the log shows them: the first line of \<^verbatim>\<open>onDeviceAdded\<close>
  (\<open>Inl\<close> the path) and of \<^verbatim>\<open>onDeviceRemoved\<close> (\<open>Inr\<close> the path); and the same
  for an event.
\<close>

definition callOf :: "action \<Rightarrow> (string + string) option" where
  "callOf a =
     (case a of
        Log l \<Rightarrow>
          (case l of
             LogDeviceAdded path name \<Rightarrow> Some (Inl path)
           | LogDeviceRemoved path \<Rightarrow> Some (Inr path)
           | _ \<Rightarrow> None)
      | _ \<Rightarrow> None)"

definition calls :: "action list \<Rightarrow> (string + string) list" where
  "calls as = List.map_filter callOf as"

fun eventCall :: "event \<Rightarrow> string + string" where
  "eventCall (Added dev) = Inl (Path dev)"
| "eventCall (Removed path) = Inr path"

text \<open>
  A list of paths without its repetitions: every path stays where it occurs first.
\<close>

definition firstOnly :: "string list \<Rightarrow> string list" where
  "firstOnly paths = rev (remdups (rev paths))"

text \<open>
  A step from one state to another is silent when it adds no handler call to the log and
  changes the path of no device record.
\<close>

definition silent :: "dstate \<Rightarrow> dstate \<Rightarrow> bool" where
  "silent s s' = (calls (trace s') = calls (trace s) \<and> (\<forall>r. Path (heap s' r) = Path (heap s r)))"

text \<open>
  A mount step is the creation of a mount directory or a run of the mount tool.
\<close>

fun mountStep :: "action \<Rightarrow> bool" where
  "mountStep (MkdirAll dir) = True"
| "mountStep (Exec name args stdin) = (name = ''mount'')"
| "mountStep a = False"

text \<open>
  The outcome of a mount attempt as the log shows it: the line
  \<^verbatim>\<open>Successfully mounted <path> at <dir>\<close> of \<^verbatim>\<open>mountDevice\<close>, or the line
  \<^verbatim>\<open>Failed to mount <path>: <err>\<close> of \<^verbatim>\<open>MountAll\<close>.
\<close>

definition attemptOf :: "action \<Rightarrow> (string \<times> bool) option" where
  "attemptOf a =
     (case a of
        Log l \<Rightarrow>
          (case l of
             LogMounted path mountPoint \<Rightarrow> Some (path, True)
           | LogFailedMount path err \<Rightarrow> Some (path, False)
           | _ \<Rightarrow> None)
      | _ \<Rightarrow> None)"

definition attempts :: "action list \<Rightarrow> (string \<times> bool) list" where
  "attempts as = List.map_filter attemptOf as"

subsection \<open>Concrete configurations, devices and worlds\<close>

text \<open>\<^verbatim>\<open>config.Default()\<close> and the state of a daemon that \<^verbatim>\<open>daemon.New\<close> returns.\<close>

definition Default :: config where
  "Default = \<lparr> Automount = True, MountBase = ''/media'', FileManager = ''xdg-open'',
     Notifications = \<lparr> Enabled = True, DeviceMounted = 5, DeviceUnmounted = -1,
       DeviceAdded = -1, DeviceRemoved = -1, DeviceUnlocked = -1, JobFailed = -1 \<rparr>,
     Devices = [], EventHooks = Map.empty,
     MountOptionsDefault = [''vfat'' \<mapsto> [''locale=en_US.UTF-8'', ''longnames''],
       ''ntfs'' \<mapsto> [''locale=en_US.UTF-8''], ''ext2'' \<mapsto> [], ''ext3'' \<mapsto> [],
       ''ext4'' \<mapsto> [], ''ufs'' \<mapsto> [], ''zfs'' \<mapsto> [],
       ''msdos'' \<mapsto> [''locale=en_US.UTF-8'', ''longnames'']],
     GELI = \<lparr> GELIEnabled = True, PasswordCmd = [], KeyFiles = Map.empty \<rparr> \<rparr>"

definition New :: dstate where
  "New = \<lparr> heap = (\<lambda>r. zeroDevice), nextRef = 0, mgrDevices = Map.empty,
     mounted = Map.empty, trace = [] \<rparr>"

text \<open>A disk and a partition as the scan creates them (the literals of \<^verbatim>\<open>parseGeomDiskList\<close> and \<^verbatim>\<open>getPartitions\<close>).\<close>

definition usbDisk :: "string \<Rightarrow> device" where
  "usbDisk name = zeroDevice\<lparr>Name := name, Path := ''/dev/'' @ name\<rparr>"

definition usbPartition :: "string \<Rightarrow> device" where
  "usbPartition name = zeroDevice\<lparr>Name := name, Path := ''/dev/'' @ name,
     IsPartition := True, IsRemovable := True\<rparr>"

text \<open>A configuration with one event hook, and a mounted partition whose label is hostile.\<close>

definition hookConfig :: config where
  "hookConfig = Default\<lparr>EventHooks :=
     [''device_mounted'' \<mapsto> ''logger mounted {label} at {mount_point}'']\<rparr>"

definition hostileDevice :: device where
  "hostileDevice = (usbPartition ''da0p1'')\<lparr>Label := ''x; touch /tmp/owned'',
     MountPoint := ''/media/x;_touch__tmp_owned'', IsMounted := True\<rparr>"

text \<open>
  A Linux host without \<^verbatim>\<open>lsblk\<close> and with one removable disk under
  \<^verbatim>\<open>/sys/block\<close>, which has one partition (\<^verbatim>\<open>blkid\<close> and \<^verbatim>\<open>file\<close> are
  absent too, so the probes leave the record as it is); the same host with unreadable
  attribute files; a FreeBSD host without \<^verbatim>\<open>geom\<close>.
\<close>

definition linuxHost :: scan_env where
  "linuxHost = \<lparr> GOOS = ''linux'',
     geomDiskList = Inl ''executable file not found in $PATH'',
     gpartShow = (\<lambda>disk. Inl ''executable file not found in $PATH''),
     lsblkJSON = Inl ''executable file not found in $PATH'',
     readDir = (\<lambda>dir. if dir = ''/sys/block'' then Inr [''sdb'']
                       else if dir = ''/sys/block/sdb'' then Inr [''removable'', ''sdb1'', ''size'']
                       else Inl ''no such file or directory''),
     readFile = (\<lambda>file. if file = ''/sys/block/sdb/removable'' then Inr (''1'' @ [CHR 0x0A])
                        else if file = ''/sys/block/sdb/size'' then Inr (''2048'' @ [CHR 0x0A])
                        else if file = ''/sys/block/sdb/sdb1/size'' then Inr (''2040'' @ [CHR 0x0A])
                        else Inl ''no such file or directory''),
     camcontrolUSB = (\<lambda>name. False),
     parseGeomDiskList = (\<lambda>output. []),
     gpartRows = (\<lambda>disk output. []),
     parseLsblkJSON = (\<lambda>output. []),
     probeLinux = (\<lambda>part. part) \<rparr>"

definition linuxUnreadable :: scan_env where
  "linuxUnreadable = linuxHost\<lparr>readFile := (\<lambda>file. Inl ''permission denied'')\<rparr>"

definition freebsdWithoutGeom :: scan_env where
  "freebsdWithoutGeom = linuxHost\<lparr>GOOS := ''freebsd''\<rparr>"

text \<open>
  A Linux host without \<^verbatim>\<open>lsblk\<close> whose \<^verbatim>\<open>/sys/block\<close> lists four disks: a
  fixed disk, the removable disk of \<open>linuxHost\<close>, a disk whose \<^verbatim>\<open>removable\<close> file
  cannot be read, and a removable disk without partitions whose \<^verbatim>\<open>size\<close> file
  cannot be read.
\<close>

definition linuxDisks :: scan_env where
  "linuxDisks = linuxHost\<lparr>
     readDir := (\<lambda>dir. if dir = ''/sys/block'' then Inr [''sda'', ''sdb'', ''sdc'', ''sdd'']
                       else if dir = ''/sys/block/sdd'' then Inr [''removable'', ''size'']
                       else readDir linuxHost dir),
     readFile := (\<lambda>file. if file = ''/sys/block/sda/removable'' then Inr (''0'' @ [CHR 0x0A])
                        else if file = ''/sys/block/sdc/removable'' then Inl ''permission denied''
                        else if file = ''/sys/block/sdd/removable'' then Inr (''1'' @ [CHR 0x0A])
                        else if file = ''/sys/block/sdd/size'' then Inl ''permission denied''
                        else readFile linuxHost file)\<rparr>"

text \<open>
  A Linux host without \<^verbatim>\<open>lsblk\<close> and \<^verbatim>\<open>blkid\<close> whose removable disk
  \<^verbatim>\<open>sdb\<close> has two partitions: an ext4 file system without label whose UUID is
  cleared, for which \<^verbatim>\<open>dumpe2fs\<close> prints \<^verbatim>\<open><none>\<close> (\<^verbatim>\<open>extractMetadata\<close>
  stores that text in \<^verbatim>\<open>UUID\<close>), and a FAT file system.
\<close>

definition clearedUuidHost :: scan_env where
  "clearedUuidHost = linuxHost\<lparr>
     readDir := (\<lambda>dir. if dir = ''/sys/block'' then Inr [''sdb'']
                       else if dir = ''/sys/block/sdb''
                         then Inr [''removable'', ''sdb1'', ''sdb2'', ''size'']
                       else Inl ''no such file or directory''),
     readFile := (\<lambda>file. if file = ''/sys/block/sdb/sdb2/size'' then Inr (''8'' @ [CHR 0x0A])
                        else readFile linuxHost file),
     probeLinux := (\<lambda>part. if Name part = ''sdb1''
                      then part\<lparr>FSType := ''ext4'', UUID := ''<none>''\<rparr>
                      else part\<lparr>FSType := ''msdosfs''\<rparr>)\<rparr>"

definition clearedUuidWorld :: world where
  "clearedUuidWorld = \<lparr> answer = (\<lambda>history a. Success []),
                         scanEnv = (\<lambda>history. clearedUuidHost) \<rparr>"

text \<open>
  A FreeBSD host with the disk \<^verbatim>\<open>da0\<close> and three partitions; \<^verbatim>\<open>geom\<close> prints
  one stanza, and \<^verbatim>\<open>gpart\<close> a header and three rows that carry the partition's
  name in the fourth field, where the row loop of \<^verbatim>\<open>getPartitions\<close> looks for it;
  \<^verbatim>\<open>file\<close> recognises none of the partitions. In \<open>hostWorld\<close> the
  mount of \<^verbatim>\<open>/dev/da0p2\<close> fails, the unmount of \<^verbatim>\<open>/media/BUSY\<close> fails and
  \<^verbatim>\<open>geli\<close> rejects every key; in \<open>calmWorld\<close> every action succeeds.
\<close>

definition geomText :: string where
  "geomText = ''Geom name: da0''"

definition gpartText :: string where
  "gpartText = ''=>      40  15633328  da0  GPT  (7.5G)'' @ [CHR 0x0A]
     @ ''        40   5211096  1  da0p1  freebsd-ufs  (2.5G)'' @ [CHR 0x0A]
     @ ''   5211136   5211096  2  da0p2  freebsd-ufs  (2.5G)'' @ [CHR 0x0A]
     @ ''  10422232   5211096  3  da0p3  freebsd-ufs  (2.5G)'' @ [CHR 0x0A]"

definition freebsdHost :: scan_env where
  "freebsdHost = \<lparr> GOOS = ''freebsd'',
     geomDiskList = Inr geomText,
     gpartShow = (\<lambda>disk. if disk = ''da0'' then Inr gpartText else Inl ''exit status 1''),
     lsblkJSON = Inl ''executable file not found in $PATH'',
     readDir = (\<lambda>dir. Inl ''no such file or directory''),
     readFile = (\<lambda>file. Inl ''no such file or directory''),
     camcontrolUSB = (\<lambda>name. False),
     parseGeomDiskList = (\<lambda>output. if output = geomText then [usbDisk ''da0''] else []),
     gpartRows = (\<lambda>disk output. if disk = ''da0'' \<and> output = gpartText
                    then [usbPartition ''da0p1'', usbPartition ''da0p2'', usbPartition ''da0p3'']
                    else []),
     parseLsblkJSON = (\<lambda>output. []),
     probeLinux = (\<lambda>part. part) \<rparr>"

definition hostAnswer :: "action list \<Rightarrow> action \<Rightarrow> outcome" where
  "hostAnswer history a =
     (case a of
        Exec name args stdin \<Rightarrow>
          if name = ''mount'' \<and> ''/dev/da0p2'' \<in> set args
            then Failure ''exit status 1'' ''mount: /dev/da0p2: Invalid argument''
          else if name = ''umount'' \<and> args = [''/media/BUSY'']
            then Failure ''exit status 1'' ''umount: unmount of /media/BUSY failed: Device busy''
          else if name = ''geli''
            then Failure ''exit status 1'' ''geli: Wrong key for da0p1.''
          else Success []
      | ReadLine \<Rightarrow> Success (''secret'' @ [CHR 0x0A])
      | _ \<Rightarrow> Success [])"

definition hostWorld :: world where
  "hostWorld = \<lparr> answer = hostAnswer, scanEnv = (\<lambda>history. freebsdHost) \<rparr>"

definition calmWorld :: world where
  "calmWorld = \<lparr> answer = (\<lambda>history a. Success []), scanEnv = (\<lambda>history. freebsdHost) \<rparr>"

text \<open>
  Daemon states that hold one device at reference 0: a mounted partition, an encrypted
  partition that is locked, and an unmounted FAT partition with a label.
\<close>

definition plugged :: "device \<Rightarrow> dstate" where
  "plugged dev = New\<lparr>heap := (heap New)(0 := dev), nextRef := 1\<rparr>"

definition busyState :: dstate where
  "busyState = (plugged ((usbPartition ''da0p1'')\<lparr>Label := ''BUSY'', MountPoint := ''/media/BUSY'',
                   IsMounted := True\<rparr>))\<lparr>mounted := [''/dev/da0p1'' \<mapsto> 0]\<rparr>"

definition encryptedState :: dstate where
  "encryptedState = plugged ((usbPartition ''da0p1'')\<lparr>IsEncrypted := True\<rparr>)"

definition stickState :: dstate where
  "stickState = plugged ((usbPartition ''da0p1'')\<lparr>Label := ''USB STICK'', FSType := ''msdosfs''\<rparr>)"

text \<open>
  A FreeBSD host on which \<^verbatim>\<open>geom\<close> lists the disks \<^verbatim>\<open>da1\<close> and
  \<^verbatim>\<open>da0\<close>, in this order, and \<^verbatim>\<open>gpart\<close> fails for both (they have no
  partition table), and one on which \<^verbatim>\<open>geom\<close> prints nothing; the poll loop knows
  \<^verbatim>\<open>da0\<close> and \<^verbatim>\<open>da2\<close>.
\<close>

definition twoDisksText :: string where
  "twoDisksText = ''Geom name: da1'' @ [CHR 0x0A] @ ''Geom name: da0'' @ [CHR 0x0A]"

definition diskHost :: scan_env where
  "diskHost = freebsdHost\<lparr>
     geomDiskList := Inr twoDisksText,
     gpartShow := (\<lambda>disk. Inl ''exit status 1''),
     parseGeomDiskList := (\<lambda>output. if output = twoDisksText
                             then [usbDisk ''da1'', usbDisk ''da0''] else []),
     gpartRows := (\<lambda>disk output. [])\<rparr>"

definition diskWorld :: world where
  "diskWorld = \<lparr> answer = (\<lambda>history a. Success []), scanEnv = (\<lambda>history. diskHost) \<rparr>"

definition emptyWorld :: world where
  "emptyWorld = \<lparr> answer = (\<lambda>history a. Success []),
                  scanEnv = (\<lambda>history. diskHost\<lparr>geomDiskList := Inr [],
                               parseGeomDiskList := (\<lambda>output. [])\<rparr>) \<rparr>"

definition knownPair :: "string \<rightharpoonup> bool" where
  "knownPair = [''/dev/da0'' \<mapsto> True, ''/dev/da2'' \<mapsto> True]"

section \<open>Properties\<close>

subsection \<open>Display names and mount directories\<close>

lemma GetDisplayName_panics_iff:
  "(\<exists>p. GetDisplayName d = Inl p) \<longleftrightarrow> Label d = [] \<and> UUID d \<noteq> [] \<and> length (UUID d) < 8"
  by (auto simp add: GetDisplayName_def sliceTo_def)

text \<open>
  C10. The claim is that \<^verbatim>\<open>GetDisplayName\<close> returns a string for every device record,
  also for one with an empty label and a UUID of fewer than 8 bytes. The code slices
  \<^verbatim>\<open>UUID[:8]\<close> without a length check: for the partition \<^verbatim>\<open>da0p1\<close> with no label
  and the UUID \<^verbatim>\<open>1234\<close> it panics (slice bounds out of range [:8] with length 4).
\<close>

theorem GetDisplayName_short_uuid_panics:
  "GetDisplayName ((usbPartition ''da0p1'')\<lparr>UUID := ''1234''\<rparr>) = Inl (SliceBoundsOutOfRange 8 4)"
  by (simp add: GetDisplayName_def usbPartition_def zeroDevice_def sliceTo_def)

text \<open>
  C1. The claim is that the mount directory holds no path-traversal or shell
  metacharacter content and lies strictly inside the base directory. The code replaces
  only \<^verbatim>\<open>/\<close> and the space: the label \<^verbatim>\<open>..\<close> under the base \<^verbatim>\<open>/media\<close>
  gives the directory \<^verbatim>\<open>/\<close>, the parent of the base, and the label
  \<^verbatim>\<open>a;$(reboot)\<close> keeps its shell metacharacters.
\<close>

theorem GetMountDirectory_escapes_base:
  "GetMountDirectory ((usbPartition ''da0p1'')\<lparr>Label := ''..''\<rparr>) ''/media'' = Inr ''/''
   \<and> GetMountDirectory ((usbPartition ''da0p1'')\<lparr>Label := ''a;$(reboot)''\<rparr>) ''/media''
       = Inr ''/media/a;$(reboot)''"
  by (simp add: GetMountDirectory_def GetDisplayName_def usbPartition_def zeroDevice_def
      ReplaceAll_def Join_def Clean_def)

subsection \<open>Event hooks\<close>

lemma executeEventHook_one_shell_line:
  "EventHooks cfg event = Some hookCmd \<Longrightarrow>
     \<exists>cmd. trace (executeEventHook cfg event dev s)
              = trace s @ [Log (LogHook event cmd), Spawn ''sh'' [''-c'', cmd]]"
  by (simp add: executeEventHook_def emit_def Let_def)

text \<open>
  C2. The claim is that the hook dispatcher passes the device attributes as distinct
  argument values, so that no attribute can add shell syntax. The code substitutes them
  into the template text and runs the text with \<^verbatim>\<open>sh -c\<close>: for the template
  \<^verbatim>\<open>logger mounted {label} at {mount_point}\<close> and the label
  \<^verbatim>\<open>x; touch /tmp/owned\<close> the shell is given a line with a second command.
\<close>

theorem executeEventHook_injects_label:
  "trace (executeEventHook hookConfig ''device_mounted'' hostileDevice New)
     = [Log (LogHook ''device_mounted''
               ''logger mounted x; touch /tmp/owned at /media/x;_touch__tmp_owned''),
        Spawn ''sh''
          [''-c'', ''logger mounted x; touch /tmp/owned at /media/x;_touch__tmp_owned'']]"
  by (simp add: executeEventHook_def hookConfig_def hostileDevice_def usbPartition_def
      Default_def New_def emit_def zeroDevice_def ReplaceAll_def Let_def)

subsection \<open>The diff of a tick\<close>


lemma checkNew_current:
  "fst (checkNew ds cur kn evs) = (\<lambda>p. if p \<in> Path ` set ds then Some True else cur p)"
  by (induction ds arbitrary: cur kn evs) (auto simp: fun_eq_iff)

lemma checkNew_known:
  "fst (snd (checkNew ds cur kn evs)) = (\<lambda>p. if p \<in> Path ` set ds then Some True else kn p)"
proof (induction ds arbitrary: cur kn evs)
  case Nil
  show ?case by simp
next
  case (Cons d ds)
  show ?case
  proof (cases "isSet kn (Path d)")
    case True
    then have "kn (Path d) = Some True"
      by (simp add: isSet_def split: option.splits)
    with True Cons show ?thesis
      by (auto simp: fun_eq_iff)
  next
    case False
    with Cons show ?thesis
      by (auto simp: fun_eq_iff)
  qed
qed

lemma checkNew_events:
  "\<exists>new. snd (snd (checkNew ds cur kn evs)) = evs @ map Added new
         \<and> subseq new ds \<and> distinct (map Path new)
         \<and> set (map Path new) = {p \<in> Path ` set ds. \<not> isSet kn p}"
proof (induction ds arbitrary: cur kn evs)
  case Nil
  show ?case by simp
next
  case (Cons d ds)
  show ?case
  proof (cases "isSet kn (Path d)")
    case True
    from Cons[of "cur(Path d \<mapsto> True)" kn evs] obtain new where
      new: "snd (snd (checkNew ds (cur(Path d \<mapsto> True)) kn evs)) = evs @ map Added new"
        "subseq new ds" "distinct (map Path new)"
        "set (map Path new) = {p \<in> Path ` set ds. \<not> isSet kn p}"
      by blast
    have "{p \<in> Path ` set (d # ds). \<not> isSet kn p} = {p \<in> Path ` set ds. \<not> isSet kn p}"
      using True by auto
    with new True show ?thesis
      by (intro exI[of _ new]) (simp add: list_emb_Cons)
  next
    case False
    let ?kn = "kn(Path d \<mapsto> True)"
    from Cons[of "cur(Path d \<mapsto> True)" ?kn "evs @ [Added d]"] obtain new where
      new: "snd (snd (checkNew ds (cur(Path d \<mapsto> True)) ?kn (evs @ [Added d])))
              = (evs @ [Added d]) @ map Added new"
        "subseq new ds" "distinct (map Path new)"
        "set (map Path new) = {p \<in> Path ` set ds. \<not> isSet ?kn p}"
      by blast
    have iss: "\<And>p. isSet ?kn p \<longleftrightarrow> p = Path d \<or> isSet kn p"
      by (simp add: isSet_def)
    have "Path d \<notin> set (map Path new)"
      using new(4) iss by simp
    moreover have "set (map Path (d # new)) = {p \<in> Path ` set (d # ds). \<not> isSet kn p}"
      using new(4) iss False by auto
    ultimately show ?thesis
      using new False by (intro exI[of _ "d # new"]) simp
  qed
qed

lemma checkRemoved_events:
  "snd (checkRemoved ps cur kn evs) = evs @ map Removed (filter (\<lambda>p. \<not> isSet cur p) ps)"
  by (induction ps arbitrary: kn evs) simp_all

lemma checkRemoved_known:
  "fst (checkRemoved ps cur kn evs) = (\<lambda>p. if p \<in> set ps \<and> \<not> isSet cur p then None else kn p)"
  by (induction ps arbitrary: kn evs) (auto simp: fun_eq_iff)

lemma pollTick_shape:
  "\<exists>new. snd (pollTick (Inr devices) order knownDevices)
            = map Added new @ map Removed (filter (\<lambda>p. p \<notin> Path ` set devices) order)
        \<and> subseq new devices \<and> distinct (map Path new)
        \<and> set (map Path new) = {p \<in> Path ` set devices. \<not> isSet knownDevices p}"
proof -
  obtain cur kn1 evs where c: "checkNew devices Map.empty knownDevices [] = (cur, kn1, evs)"
    by (cases "checkNew devices Map.empty knownDevices []") auto
  have cur: "cur = (\<lambda>p. if p \<in> Path ` set devices then Some True else None)"
    using checkNew_current[of devices Map.empty knownDevices "[]"] c by simp
  then have iss: "\<And>p. isSet cur p \<longleftrightarrow> p \<in> Path ` set devices"
    by (simp add: isSet_def)
  from checkNew_events[of devices Map.empty knownDevices "[]"] c obtain new where
    new: "evs = map Added new" "subseq new devices" "distinct (map Path new)"
      "set (map Path new) = {p \<in> Path ` set devices. \<not> isSet knownDevices p}"
    by auto
  have "snd (pollTick (Inr devices) order knownDevices)
          = map Added new @ map Removed (filter (\<lambda>p. p \<notin> Path ` set devices) order)"
    by (simp add: pollTick_def c checkRemoved_events new(1) iss)
  with new show ?thesis by blast
qed

lemma pollTick_known:
  "fst (pollTick (Inr devices) order knownDevices)
     = (\<lambda>p. if p \<in> Path ` set devices then Some True
             else if p \<in> set order then None else knownDevices p)"
proof -
  obtain cur kn1 evs where c: "checkNew devices Map.empty knownDevices [] = (cur, kn1, evs)"
    by (cases "checkNew devices Map.empty knownDevices []") auto
  have cur: "cur = (\<lambda>p. if p \<in> Path ` set devices then Some True else None)"
    using checkNew_current[of devices Map.empty knownDevices "[]"] c by simp
  then have iss: "\<And>p. isSet cur p \<longleftrightarrow> p \<in> Path ` set devices"
    by (simp add: isSet_def)
  have kn1: "kn1 = (\<lambda>p. if p \<in> Path ` set devices then Some True else knownDevices p)"
    using checkNew_known[of devices Map.empty knownDevices "[]"] c by simp
  show ?thesis
    by (simp add: pollTick_def c checkRemoved_known iss kn1 fun_eq_iff)
qed

lemma knownAfterNew_eq:
  "knownAfterNew devices knownDevices = (\<lambda>p. if p \<in> Path ` set devices then Some True else knownDevices p)"
  by (simp add: knownAfterNew_def checkNew_known)

lemma dom_knownAfterNew: "dom (knownAfterNew devices knownDevices) = dom knownDevices \<union> Path ` set devices"
  by (auto simp: knownAfterNew_eq split: if_splits)

lemma isSet_allTrue: "ran m \<subseteq> {True} \<Longrightarrow> isSet m p \<longleftrightarrow> p \<in> dom m"
  by (auto simp: isSet_def ran_def split: option.splits)

lemma pollTick_diff:
  assumes inv: "ran knownDevices \<subseteq> {True}"
    and ord: "rangeOrder order (knownAfterNew devices knownDevices)"
  shows "\<exists>new. snd (pollTick (Inr devices) order knownDevices)
                 = map Added new @ map Removed (filter (\<lambda>p. p \<notin> Path ` set devices) order)
             \<and> subseq new devices \<and> distinct (map Path new)
             \<and> set (map Path new) = Path ` set devices - dom knownDevices
             \<and> set (filter (\<lambda>p. p \<notin> Path ` set devices) order) = dom knownDevices - Path ` set devices
             \<and> distinct (filter (\<lambda>p. p \<notin> Path ` set devices) order)
             \<and> dom (fst (pollTick (Inr devices) order knownDevices)) = Path ` set devices
             \<and> ran (fst (pollTick (Inr devices) order knownDevices)) \<subseteq> {True}"
proof -
  let ?paths = "Path ` set devices"
  from pollTick_shape[of devices order knownDevices] obtain new where
    new: "snd (pollTick (Inr devices) order knownDevices)
            = map Added new @ map Removed (filter (\<lambda>p. p \<notin> ?paths) order)"
      "subseq new devices" "distinct (map Path new)"
      "set (map Path new) = {p \<in> ?paths. \<not> isSet knownDevices p}"
    by blast
  have so: "set order = dom knownDevices \<union> ?paths" and dord: "distinct order"
    using ord by (simp_all add: rangeOrder_def dom_knownAfterNew)
  have 1: "set (map Path new) = ?paths - dom knownDevices"
    using new(4) isSet_allTrue[OF inv] by auto
  have 2: "set (filter (\<lambda>p. p \<notin> ?paths) order) = dom knownDevices - ?paths"
    using so by auto
  have 4: "distinct (filter (\<lambda>p. p \<notin> ?paths) order)" using dord by simp
  have k: "fst (pollTick (Inr devices) order knownDevices)
             = (\<lambda>p. if p \<in> ?paths then Some True else None)"
    using so by (auto simp: pollTick_known fun_eq_iff)
  have 6: "dom (fst (pollTick (Inr devices) order knownDevices)) = ?paths"
    by (auto simp: k split: if_splits)
  have 7: "ran (fst (pollTick (Inr devices) order knownDevices)) \<subseteq> {True}"
    by (auto simp: k ran_def split: if_splits)
  from new(1,2,3) 1 2 4 6 7 show ?thesis by blast
qed

lemma remdups_snoc: "remdups (xs @ [p]) = remdups (filter (\<lambda>q. q \<noteq> p) xs) @ [p]"
  by (induction xs) auto

lemma firstOnly_Cons: "firstOnly (p # ps) = p # firstOnly (filter (\<lambda>q. q \<noteq> p) ps)"
  by (simp add: firstOnly_def remdups_snoc rev_filter)

lemma firstOnly_set: "set (firstOnly ps) = set ps \<and> distinct (firstOnly ps)"
  by (simp add: firstOnly_def)

lemma checkNew_added_paths:
  "map eventCall (snd (snd (checkNew ds cur kn evs)))
     = map eventCall evs @ map Inl (firstOnly (filter (\<lambda>p. \<not> isSet kn p) (map Path ds)))"
proof (induction ds arbitrary: cur kn evs)
  case Nil
  show ?case by (simp add: firstOnly_def)
next
  case (Cons d ds)
  show ?case
  proof (cases "isSet kn (Path d)")
    case True
    have step: "checkNew (d # ds) cur kn evs = checkNew ds (cur(Path d \<mapsto> True)) kn evs"
      using True by simp
    have fo: "firstOnly (filter (\<lambda>p. \<not> isSet kn p) (map Path (d # ds)))
                = firstOnly (filter (\<lambda>p. \<not> isSet kn p) (map Path ds))"
      using True by simp
    show ?thesis
      unfolding step fo
      using Cons[of "cur(Path d \<mapsto> True)" kn evs]
      by (simp add: fun_upd_def)
  next
    case False
    have step: "checkNew (d # ds) cur kn evs
                  = checkNew ds (cur(Path d \<mapsto> True)) (kn(Path d \<mapsto> True)) (evs @ [Added d])"
      using False by simp
    have f: "filter (\<lambda>p. \<not> isSet (kn(Path d \<mapsto> True)) p) (map Path ds)
               = filter (\<lambda>q. q \<noteq> Path d) (filter (\<lambda>p. \<not> isSet kn p) (map Path ds))"
      by (auto simp: isSet_def intro!: filter_cong)
    have "filter (\<lambda>p. \<not> isSet kn p) (map Path (d # ds))
            = Path d # filter (\<lambda>p. \<not> isSet kn p) (map Path ds)"
      using False by simp
    then have fo: "firstOnly (filter (\<lambda>p. \<not> isSet kn p) (map Path (d # ds)))
            = Path d # firstOnly (filter (\<lambda>p. \<not> isSet (kn(Path d \<mapsto> True)) p) (map Path ds))"
      by (simp only: firstOnly_Cons f)
    show ?thesis
      unfolding step fo
      using Cons[of "cur(Path d \<mapsto> True)" "kn(Path d \<mapsto> True)" "evs @ [Added d]"]
      by (simp add: fun_upd_def)
  qed
qed
lemma pollTick_calls:
  "map eventCall (snd (pollTick (Inr devices) order knownDevices))
     = map Inl (firstOnly (filter (\<lambda>p. \<not> isSet knownDevices p) (map Path devices)))
       @ map Inr (filter (\<lambda>p. p \<notin> Path ` set devices) order)"
proof -
  obtain cur kn1 evs where c: "checkNew devices Map.empty knownDevices [] = (cur, kn1, evs)"
    by (cases "checkNew devices Map.empty knownDevices []") auto
  have cur: "cur = (\<lambda>p. if p \<in> Path ` set devices then Some True else None)"
    using checkNew_current[of devices Map.empty knownDevices "[]"] c by simp
  then have iss: "\<And>p. isSet cur p \<longleftrightarrow> p \<in> Path ` set devices"
    by (simp add: isSet_def)
  have evs: "map eventCall evs
               = map Inl (firstOnly (filter (\<lambda>p. \<not> isSet knownDevices p) (map Path devices)))"
    using checkNew_added_paths[of devices Map.empty knownDevices "[]"] c by simp
  show ?thesis
    by (simp add: pollTick_def c checkRemoved_events evs iss comp_def)
qed

subsection \<open>Scanning\<close>

lemma allocDevices_Cons:
  "allocDevices (d # ds) s =
     (nextRef s # fst (allocDevices ds (s\<lparr>heap := (heap s)(nextRef s := d), nextRef := Suc (nextRef s)\<rparr>)),
      snd (allocDevices ds (s\<lparr>heap := (heap s)(nextRef s := d), nextRef := Suc (nextRef s)\<rparr>)))"
  by (simp add: Let_def case_prod_beta)

lemma allocDevices_frame:
  "mgrDevices (snd (allocDevices ds s)) = mgrDevices s
   \<and> mounted (snd (allocDevices ds s)) = mounted s
   \<and> trace (snd (allocDevices ds s)) = trace s
   \<and> nextRef (snd (allocDevices ds s)) = nextRef s + length ds
   \<and> (\<forall>r < nextRef s. heap (snd (allocDevices ds s)) r = heap s r)"
proof (induction ds arbitrary: s)
  case Nil
  show ?case by simp
next
  case (Cons d ds)
  show ?case
    using Cons[of "s\<lparr>heap := (heap s)(nextRef s := d), nextRef := Suc (nextRef s)\<rparr>"]
    by (simp add: allocDevices_Cons del: allocDevices.simps)
qed

lemma allocDevices_refs: "fst (allocDevices ds s) = [nextRef s ..< nextRef s + length ds]"
proof (induction ds arbitrary: s)
  case Nil
  show ?case by simp
next
  case (Cons d ds)
  show ?case
    using Cons[of "s\<lparr>heap := (heap s)(nextRef s := d), nextRef := Suc (nextRef s)\<rparr>"]
    by (simp add: allocDevices_Cons upt_conv_Cons del: allocDevices.simps upt_Suc)
qed

lemma allocDevices_heap:
  "map (heap (snd (allocDevices ds s))) (fst (allocDevices ds s)) = ds"
proof (induction ds arbitrary: s)
  case Nil
  show ?case by simp
next
  case (Cons d ds)
  let ?s1 = "s\<lparr>heap := (heap s)(nextRef s := d), nextRef := Suc (nextRef s)\<rparr>"
  have "heap (snd (allocDevices ds ?s1)) (nextRef s) = heap ?s1 (nextRef s)"
    using allocDevices_frame[of ds ?s1] by simp
  then show ?case
    using Cons[of ?s1] by (simp add: allocDevices_Cons del: allocDevices.simps)
qed

lemma registerDevices_frame:
  "heap (registerDevices rs s) = heap s \<and> mounted (registerDevices rs s) = mounted s
   \<and> trace (registerDevices rs s) = trace s \<and> nextRef (registerDevices rs s) = nextRef s"
  by (induction rs arbitrary: s) simp_all

lemma scanFreeBSD_fails_iff: "(\<exists>err. scanFreeBSD env = Inl err) \<longleftrightarrow> isl (geomDiskList env)"
  by (cases "geomDiskList env") (simp_all add: scanFreeBSD_def)

lemma scanLinuxFallback_fails_iff:
  "(\<exists>err. scanLinuxFallback env = Inl err) \<longleftrightarrow> isl (readDir env ''/sys/block'')"
  by (cases "readDir env ''/sys/block''") (simp_all add: scanLinuxFallback_def)

lemma scanLinux_fails_iff:
  "(\<exists>err. scanLinux env = Inl err) \<longleftrightarrow> isl (lsblkJSON env) \<and> isl (readDir env ''/sys/block'')"
  by (cases "lsblkJSON env") (simp_all add: scanLinux_def scanLinuxFallback_fails_iff)

lemma scanDisks_entries:
  "scanDisks env devices disks = devices @ concat (map (diskEntry env) disks)"
  by (induction disks arbitrary: devices)
     (simp_all add: diskEntry_def getPartitions_def Let_def split: sum.splits)

lemma fallbackEntries_entries:
  "fallbackEntries env devices entries = devices @ concat (map (sysBlockEntry env) entries)"
  by (induction entries arbitrary: devices)
     (simp_all add: sysBlockEntry_def zeroDevice_def Let_def split: sum.splits option.splits)

lemma Scan_cases:
  "Scan env s = (case (if GOOS env = ''freebsd'' then scanFreeBSD env
            else if GOOS env = ''linux'' then scanLinux env
            else Inl (UnsupportedOS (GOOS env))) of
        Inl err \<Rightarrow> (Fail err, s)
      | Inr devs \<Rightarrow> (Ok (fst (allocDevices devs s)), registerDevices (fst (allocDevices devs s)) (snd (allocDevices devs s))))"
  by (simp add: Scan_def split: sum.splits prod.splits)

text \<open>
  C5. The claim is that a failing primary enumeration tool makes the scan fall back
  rather than fail, and that the scan never returns a silent partial list. On FreeBSD
  the scan fails as soon as \<^verbatim>\<open>geom\<close> does; and on Linux, in the fallback, a disk whose
  \<^verbatim>\<open>removable\<close> file cannot be read is skipped: the scan returns the empty list
  with a nil error although \<^verbatim>\<open>/sys/block\<close> lists a disk.
\<close>

theorem Scan_no_fallback_on_freebsd:
  "fst (Scan freebsdWithoutGeom New)
     = Fail (ListDisksFailed (OSError ''executable file not found in $PATH''))
   \<and> readDir linuxUnreadable ''/sys/block'' = Inr [''sdb'']
   \<and> readFile linuxUnreadable ''/sys/block/sdb/removable'' = Inl ''permission denied''
   \<and> fst (Scan linuxUnreadable New) = Ok []"
proof -
  have 1: "fst (Scan freebsdWithoutGeom New)
     = Fail (ListDisksFailed (OSError ''executable file not found in $PATH''))"
    by code_simp
  have 2: "readDir linuxUnreadable ''/sys/block'' = Inr [''sdb'']"
    by code_simp
  have 3: "readFile linuxUnreadable ''/sys/block/sdb/removable'' = Inl ''permission denied''"
    by code_simp
  have 4: "fst (Scan linuxUnreadable New) = Ok []"
    by code_simp
  from 1 2 3 4 show ?thesis by simp
qed

text \<open>
  C5, as amended. On Linux a failing \<^verbatim>\<open>lsblk\<close> makes the scan fall back to
  \<^verbatim>\<open>/sys/block\<close> rather than fail; on FreeBSD there is no fallback. \<^verbatim>\<open>Scan\<close>
  returns an error, and then no list and an unchanged manager, in exactly three cases:
  on FreeBSD when \<^verbatim>\<open>geom disk list\<close> fails, on Linux when \<^verbatim>\<open>lsblk\<close> fails and
  \<^verbatim>\<open>/sys/block\<close> cannot be read either, and on any other operating system. A failure
  of a later step is not reported, and the scan succeeds with the list that is left: on
  FreeBSD the list holds every removable disk of \<^verbatim>\<open>geom\<close>, each followed by its
  partitions, and a disk for which \<^verbatim>\<open>gpart\<close> fails is listed without partitions; in
  the fallback on Linux the list is made from the entries of \<^verbatim>\<open>/sys/block\<close>, an
  entry whose \<^verbatim>\<open>removable\<close> file cannot be read is left out, and a removable disk
  whose \<^verbatim>\<open>size\<close> file cannot be read is listed with the size 0.
\<close>

theorem Scan_failure_cases:
  "((\<exists>err. fst (Scan env s) = Fail err) \<longleftrightarrow>
       GOOS env = ''freebsd'' \<and> isl (geomDiskList env)
     \<or> GOOS env = ''linux'' \<and> isl (lsblkJSON env) \<and> isl (readDir env ''/sys/block'')
     \<or> GOOS env \<noteq> ''freebsd'' \<and> GOOS env \<noteq> ''linux'')
   \<and> (\<forall>err. fst (Scan env s) = Fail err \<longrightarrow> snd (Scan env s) = s)
   \<and> (\<forall>output. GOOS env = ''freebsd'' \<and> geomDiskList env = Inr output \<longrightarrow>
        (\<exists>devices. fst (Scan env s) = Ok devices
           \<and> map (heap (snd (Scan env s))) devices
               = concat (map (diskEntry env) (parseGeomDiskList env output))))
   \<and> (\<forall>disk e. isRemovableDevice env (Name disk) \<and> gpartShow env (Name disk) = Inl e \<longrightarrow>
        diskEntry env disk = [disk\<lparr>IsRemovable := True\<rparr>])
   \<and> (\<forall>blockDevices. GOOS env = ''linux'' \<and> isl (lsblkJSON env)
          \<and> readDir env ''/sys/block'' = Inr blockDevices \<longrightarrow>
        (\<exists>devices. fst (Scan env s) = Ok devices
           \<and> map (heap (snd (Scan env s))) devices
               = concat (map (sysBlockEntry env) blockDevices)))
   \<and> (\<forall>name e. readFile env (Join [''/sys/block'', name, ''removable'']) = Inl e \<longrightarrow>
        sysBlockEntry env name = [])
   \<and> (\<forall>name removableData e.
          readFile env (Join [''/sys/block'', name, ''removable'']) = Inr removableData
          \<and> TrimSpace removableData = ''1''
          \<and> readFile env (Join [''/sys/block'', name, ''size'']) = Inl e \<longrightarrow>
        sysBlockEntry env name
          = zeroDevice\<lparr>Name := name, Path := ''/dev/'' @ name, IsRemovable := True, Size := 0\<rparr>
              # findLinuxPartitions env name)"
proof -
  have 1: "(\<exists>err. fst (Scan env s) = Fail err) \<longleftrightarrow>
       GOOS env = ''freebsd'' \<and> isl (geomDiskList env)
     \<or> GOOS env = ''linux'' \<and> isl (lsblkJSON env) \<and> isl (readDir env ''/sys/block'')
     \<or> GOOS env \<noteq> ''freebsd'' \<and> GOOS env \<noteq> ''linux''"
    using scanFreeBSD_fails_iff[of env] scanLinux_fails_iff[of env]
    by (auto simp: Scan_cases split: sum.splits)
  have 2: "\<forall>err. fst (Scan env s) = Fail err \<longrightarrow> snd (Scan env s) = s"
    by (auto simp: Scan_cases split: sum.splits if_splits)
  have 3: "\<exists>devices. fst (Scan env s) = Ok devices
           \<and> map (heap (snd (Scan env s))) devices
               = concat (map (diskEntry env) (parseGeomDiskList env out))"
    if "GOOS env = ''freebsd''" "geomDiskList env = Inr out" for out
  proof -
    have "scanFreeBSD env = Inr (concat (map (diskEntry env) (parseGeomDiskList env out)))"
      using that(2) by (simp add: scanFreeBSD_def scanDisks_entries)
    then show ?thesis
      using that(1) by (simp add: Scan_cases registerDevices_frame allocDevices_heap)
  qed
  have 4: "diskEntry env disk = [disk\<lparr>IsRemovable := True\<rparr>]"
    if "isRemovableDevice env (Name disk)" "gpartShow env (Name disk) = Inl e" for disk e
    using that by (simp add: diskEntry_def)
  have 5: "\<exists>devices. fst (Scan env s) = Ok devices
           \<and> map (heap (snd (Scan env s))) devices = concat (map (sysBlockEntry env) blockDevices)"
    if "GOOS env = ''linux''" "isl (lsblkJSON env)" "readDir env ''/sys/block'' = Inr blockDevices"
    for blockDevices
  proof -
    have "scanLinux env = Inr (concat (map (sysBlockEntry env) blockDevices))"
      using that
      by (cases "lsblkJSON env")
         (simp_all add: scanLinux_def scanLinuxFallback_def fallbackEntries_entries)
    then show ?thesis
      using that(1) by (simp add: Scan_cases registerDevices_frame allocDevices_heap)
  qed
  have 6: "sysBlockEntry env name = []"
    if "readFile env (Join [''/sys/block'', name, ''removable'']) = Inl e" for name e
    using that by (simp add: sysBlockEntry_def)
  have 7: "sysBlockEntry env name
          = zeroDevice\<lparr>Name := name, Path := ''/dev/'' @ name, IsRemovable := True, Size := 0\<rparr>
              # findLinuxPartitions env name"
    if "readFile env (Join [''/sys/block'', name, ''removable'']) = Inr removableData"
      "TrimSpace removableData = ''1''"
      "readFile env (Join [''/sys/block'', name, ''size'']) = Inl e"
    for name removableData e
    using that by (simp add: sysBlockEntry_def)
  from 1 2 3 4 5 6 7 show ?thesis by blast
qed

theorem Scan_failure_cases_witness:
  "GOOS freebsdWithoutGeom = ''freebsd'' \<and> isl (geomDiskList freebsdWithoutGeom)
   \<and> fst (Scan freebsdWithoutGeom New)
       = Fail (ListDisksFailed (OSError ''executable file not found in $PATH''))
   \<and> snd (Scan freebsdWithoutGeom New) = New
   \<and> GOOS diskHost = ''freebsd'' \<and> geomDiskList diskHost = Inr twoDisksText
   \<and> parseGeomDiskList diskHost twoDisksText = [usbDisk ''da1'', usbDisk ''da0'']
   \<and> isRemovableDevice diskHost ''da1'' \<and> gpartShow diskHost ''da1'' = Inl ''exit status 1''
   \<and> fst (Scan diskHost New) = Ok [0, 1]
   \<and> map (heap (snd (Scan diskHost New))) [0, 1]
       = [(usbDisk ''da1'')\<lparr>IsRemovable := True\<rparr>, (usbDisk ''da0'')\<lparr>IsRemovable := True\<rparr>]
   \<and> GOOS linuxDisks = ''linux'' \<and> isl (lsblkJSON linuxDisks)
   \<and> readDir linuxDisks ''/sys/block'' = Inr [''sda'', ''sdb'', ''sdc'', ''sdd'']
   \<and> readFile linuxDisks ''/sys/block/sdc/removable'' = Inl ''permission denied''
   \<and> readFile linuxDisks ''/sys/block/sdd/size'' = Inl ''permission denied''
   \<and> fst (Scan linuxDisks New) = Ok [0, 1, 2]
   \<and> map (heap (snd (Scan linuxDisks New))) [0, 1, 2]
       = [(usbDisk ''sdb'')\<lparr>IsRemovable := True, Size := 1048576\<rparr>,
          (usbPartition ''sdb1'')\<lparr>Size := 1044480\<rparr>,
          (usbDisk ''sdd'')\<lparr>IsRemovable := True\<rparr>]"
proof -
  have f1: "GOOS freebsdWithoutGeom = ''freebsd''" by code_simp
  have f2: "isl (geomDiskList freebsdWithoutGeom)" by code_simp
  have f3: "fst (Scan freebsdWithoutGeom New)
       = Fail (ListDisksFailed (OSError ''executable file not found in $PATH''))"
    by code_simp
  from Scan_failure_cases[of freebsdWithoutGeom New] f3
  have f4: "snd (Scan freebsdWithoutGeom New) = New"
    by blast
  have d1: "GOOS diskHost = ''freebsd''" by code_simp
  have d2: "geomDiskList diskHost = Inr twoDisksText" by code_simp
  have d3: "parseGeomDiskList diskHost twoDisksText = [usbDisk ''da1'', usbDisk ''da0'']"
    by code_simp
  have d4: "isRemovableDevice diskHost ''da1''" by code_simp
  have d5: "gpartShow diskHost ''da1'' = Inl ''exit status 1''" by code_simp
  have d6: "Name (usbDisk ''da1'') = ''da1''" by code_simp
  have d7: "fst (Scan diskHost New) = Ok [0, 1]" by code_simp
  have d8: "diskEntry diskHost (usbDisk ''da0'') = [(usbDisk ''da0'')\<lparr>IsRemovable := True\<rparr>]"
    by code_simp
  from Scan_failure_cases[of diskHost New] d4 d5 d6
  have d9: "diskEntry diskHost (usbDisk ''da1'') = [(usbDisk ''da1'')\<lparr>IsRemovable := True\<rparr>]"
    by metis
  from Scan_failure_cases[of diskHost New] d1 d2 d7
  have "map (heap (snd (Scan diskHost New))) [0, 1]
          = concat (map (diskEntry diskHost) (parseGeomDiskList diskHost twoDisksText))"
    by auto
  then have d10: "map (heap (snd (Scan diskHost New))) [0, 1]
       = [(usbDisk ''da1'')\<lparr>IsRemovable := True\<rparr>, (usbDisk ''da0'')\<lparr>IsRemovable := True\<rparr>]"
    by (simp add: d3 d8 d9)
  have l1: "GOOS linuxDisks = ''linux''" by code_simp
  have l2: "isl (lsblkJSON linuxDisks)" by code_simp
  have l3: "readDir linuxDisks ''/sys/block'' = Inr [''sda'', ''sdb'', ''sdc'', ''sdd'']"
    by code_simp
  have l4: "readFile linuxDisks ''/sys/block/sdc/removable'' = Inl ''permission denied''"
    by code_simp
  have l5: "readFile linuxDisks ''/sys/block/sdd/size'' = Inl ''permission denied''"
    by code_simp
  have l6: "fst (Scan linuxDisks New) = Ok [0, 1, 2]" by code_simp
  have j1: "Join [''/sys/block'', ''sdc'', ''removable''] = ''/sys/block/sdc/removable''"
    by code_simp
  have j2: "Join [''/sys/block'', ''sdd'', ''removable''] = ''/sys/block/sdd/removable''"
    by code_simp
  have j3: "Join [''/sys/block'', ''sdd'', ''size''] = ''/sys/block/sdd/size''"
    by code_simp
  have l7: "readFile linuxDisks ''/sys/block/sdd/removable'' = Inr (''1'' @ [CHR 0x0A])"
    by code_simp
  have l8: "TrimSpace (''1'' @ [CHR 0x0A]) = ''1''" by code_simp
  have l9: "findLinuxPartitions linuxDisks ''sdd'' = []" by code_simp
  have e1: "sysBlockEntry linuxDisks ''sda'' = []" by code_simp
  have e2: "sysBlockEntry linuxDisks ''sdb''
              = [(usbDisk ''sdb'')\<lparr>IsRemovable := True, Size := 1048576\<rparr>,
                 (usbPartition ''sdb1'')\<lparr>Size := 1044480\<rparr>]"
    by code_simp
  from Scan_failure_cases[of linuxDisks New] l4 j1
  have e3: "sysBlockEntry linuxDisks ''sdc'' = []"
    by metis
  have z: "zeroDevice\<lparr>Name := ''sdd'', Path := ''/dev/'' @ ''sdd'', IsRemovable := True, Size := 0\<rparr>
             = (usbDisk ''sdd'')\<lparr>IsRemovable := True\<rparr>"
    by code_simp
  from Scan_failure_cases[of linuxDisks New] l5 l7 l8 j2 j3
  have "sysBlockEntry linuxDisks ''sdd''
          = zeroDevice\<lparr>Name := ''sdd'', Path := ''/dev/'' @ ''sdd'', IsRemovable := True, Size := 0\<rparr>
              # findLinuxPartitions linuxDisks ''sdd''"
    by metis
  then have e4: "sysBlockEntry linuxDisks ''sdd'' = [(usbDisk ''sdd'')\<lparr>IsRemovable := True\<rparr>]"
    by (simp only: z l9)
  from Scan_failure_cases[of linuxDisks New] l1 l2 l3 l6
  have "map (heap (snd (Scan linuxDisks New))) [0, 1, 2]
          = concat (map (sysBlockEntry linuxDisks) [''sda'', ''sdb'', ''sdc'', ''sdd''])"
    by auto
  then have l10: "map (heap (snd (Scan linuxDisks New))) [0, 1, 2]
       = [(usbDisk ''sdb'')\<lparr>IsRemovable := True, Size := 1048576\<rparr>,
          (usbPartition ''sdb1'')\<lparr>Size := 1044480\<rparr>,
          (usbDisk ''sdd'')\<lparr>IsRemovable := True\<rparr>]"
    by (simp add: e1 e2 e3 e4)
  from f1 f2 f3 f4 d1 d2 d3 d4 d5 d7 d10 l1 l2 l3 l4 l5 l6 l10 show ?thesis
    by simp
qed

subsection \<open>Unlocking, mounting and unmounting\<close>

lemma attempts_simps [simp]:
  "attempts [] = []"
  "attempts (xs @ ys) = attempts xs @ attempts ys"
  "attempts (a # as) = (case attemptOf a of None \<Rightarrow> attempts as | Some x \<Rightarrow> x # attempts as)"
  by (simp_all add: attempts_def map_filter_def split: option.splits)

lemma attemptOf_simps [simp]:
  "attemptOf (Log (LogMounted path mountPoint)) = Some (path, True)"
  "attemptOf (Log (LogFailedMount path err)) = Some (path, False)"
  "attemptOf (Log (LogMounting p mp fs)) = None"
  "attemptOf (Log (LogUnlocking p)) = None"
  "attemptOf (Log (LogUnlocked p)) = None"
  "attemptOf (Log (LogHook ev cmd)) = None"
  "attemptOf (Exec name args stdin) = None"
  "attemptOf (Spawn name args) = None"
  "attemptOf (MkdirAll dir) = None"
  "attemptOf (Notify title body ms) = None"
  "attemptOf (Print text) = None"
  "attemptOf ReadLine = None"
  by (simp_all add: attemptOf_def)

lemma calls_simps [simp]:
  "calls [] = []"
  "calls (xs @ ys) = calls xs @ calls ys"
  "calls (a # as) = (case callOf a of None \<Rightarrow> calls as | Some x \<Rightarrow> x # calls as)"
  by (simp_all add: calls_def map_filter_def split: option.splits)

lemma callOf_simps [simp]:
  "callOf (Log (LogDeviceAdded path name)) = Some (Inl path)"
  "callOf (Log (LogDeviceRemoved path)) = Some (Inr path)"
  "callOf (Log (LogScanFailed err)) = None"
  "callOf (Log (LogIgnoring p)) = None"
  "callOf (Log (LogFailedAutomount p err)) = None"
  "callOf (Log (LogFailedUnmount p err)) = None"
  "callOf (Log (LogFailedMount p err)) = None"
  "callOf (Log (LogMounting p mp fs)) = None"
  "callOf (Log (LogMounted p mp)) = None"
  "callOf (Log (LogUnmounting p mp)) = None"
  "callOf (Log (LogUnmounted p)) = None"
  "callOf (Log (LogUnlocking p)) = None"
  "callOf (Log (LogUnlocked p)) = None"
  "callOf (Log (LogHook ev cmd)) = None"
  "callOf (Exec name args stdin) = None"
  "callOf (Spawn name args) = None"
  "callOf (MkdirAll dir) = None"
  "callOf (Remove dir) = None"
  "callOf (Notify title body ms) = None"
  "callOf (Print text) = None"
  "callOf ReadLine = None"
  "callOf ScanDevices = None"
  by (simp_all add: callOf_def)

lemma emit_simps [simp]:
  "trace (emit a s) = trace s @ [a]" "heap (emit a s) = heap s" "mounted (emit a s) = mounted s"
  "mgrDevices (emit a s) = mgrDevices s" "nextRef (emit a s) = nextRef s"
  by (simp_all add: emit_def)

lemma perform_eq: "perform w a s = (out, s') \<longleftrightarrow> out = answer w (trace s) a \<and> s' = emit a s"
  by (auto simp: perform_def)

lemma sendNotification_frame:
  assumes "sendNotification cfg secs title body dev s = (res, s')"
  shows "(\<exists>new. s' = s\<lparr>trace := trace s @ new\<rparr> \<and> \<not> list_ex mountStep new \<and> attempts new = [] \<and> calls new = [])
         \<and> (\<forall>err. res \<noteq> Fail err)"
  using assms
  by (auto simp: sendNotification_def emit_def split: if_splits sum.splits intro: exI[of _ "[]"])

lemma executeEventHook_frame:
  "\<exists>new. executeEventHook cfg event dev s = s\<lparr>trace := trace s @ new\<rparr>
         \<and> \<not> list_ex mountStep new \<and> attempts new = [] \<and> calls new = []"
  by (cases "EventHooks cfg event") (auto simp: executeEventHook_def emit_def Let_def intro: exI[of _ "[]"])

lemma getPassword_frame:
  assumes "getPassword cfg w dev s = (res, s')"
  shows "\<exists>new. s' = s\<lparr>trace := trace s @ new\<rparr> \<and> \<not> list_ex mountStep new \<and> attempts new = [] \<and> calls new = []"
  using assms
  by (auto simp: getPassword_def perform_def emit_def
           split: if_splits sum.splits outcome.splits intro: exI[of _ "[]"])

lemma geliCommand_frame:
  assumes "geliCommand cfg w dev s = (res, s')"
  shows "(\<exists>new. s' = s\<lparr>trace := trace s @ new\<rparr> \<and> \<not> list_ex mountStep new \<and> attempts new = [] \<and> calls new = [])
         \<and> (\<forall>cmd. res = Ok cmd \<longrightarrow> \<not> mountStep cmd \<and> attemptOf cmd = None \<and> callOf cmd = None)"
proof (cases "KeyFiles (GELI cfg) (UUID dev)")
  case (Some keyfile)
  with assms show ?thesis
    by (auto simp: geliCommand_def intro: exI[of _ "[]"])
next
  case None
  obtain pr s1 where p: "getPassword cfg w dev s = (pr, s1)"
    by (cases "getPassword cfg w dev s") auto
  from getPassword_frame[OF p] obtain new where
    "s1 = s\<lparr>trace := trace s @ new\<rparr>" "\<not> list_ex mountStep new" "attempts new = [] \<and> calls new = []"
    by blast
  with assms None p show ?thesis
    by (cases pr) (auto simp: geliCommand_def)
qed

lemma unlockDevice_frame:
  assumes "unlockDevice cfg w r s = (res, s')"
  shows "\<exists>new. \<not> list_ex mountStep new \<and> attempts new = [] \<and> calls new = []
           \<and> (case res of
                 Ok u \<Rightarrow> s' = s\<lparr>heap := (heap s)(r := (heap s r)\<lparr>IsUnlocked := True\<rparr>),
                                 trace := trace s @ new\<rparr>
               | Fail err \<Rightarrow> s' = s\<lparr>trace := trace s @ new\<rparr>
               | Panic p \<Rightarrow> mounted s' = mounted s \<and> trace s' = trace s @ new)"
proof (cases "GELIEnabled (GELI cfg)")
  case False
  with assms show ?thesis
    by (auto simp: unlockDevice_def intro: exI[of _ "[]"])
next
  case True
  let ?s0 = "emit (Log (LogUnlocking (Path (heap s r)))) s"
  obtain gr s1 where g: "geliCommand cfg w (heap s r) ?s0 = (gr, s1)"
    by (cases "geliCommand cfg w (heap s r) ?s0") auto
  from geliCommand_frame[OF g] obtain n1 where
    n1: "s1 = ?s0\<lparr>trace := trace ?s0 @ n1\<rparr>" "\<not> list_ex mountStep n1" "attempts n1 = [] \<and> calls n1 = []"
      and cmd: "\<forall>cmd. gr = Ok cmd \<longrightarrow> \<not> mountStep cmd \<and> attemptOf cmd = None \<and> callOf cmd = None"
    by blast
  show ?thesis
  proof (cases gr)
    case (Fail err)
    with assms True g n1 show ?thesis
      by (auto simp: unlockDevice_def emit_def
               intro!: exI[of _ "Log (LogUnlocking (Path (heap s r))) # n1"])
  next
    case (Panic p)
    with assms True g n1 show ?thesis
      by (auto simp: unlockDevice_def emit_def
               intro!: exI[of _ "Log (LogUnlocking (Path (heap s r))) # n1"])
  next
    case (Ok cmd)
    with cmd have c: "\<not> mountStep cmd" "attemptOf cmd = None \<and> callOf cmd = None" by auto
    show ?thesis
    proof (cases "answer w (trace s1) cmd")
      case (Failure err out)
      with assms True g n1 Ok c show ?thesis
        by (auto simp: unlockDevice_def emit_def perform_def
                 intro!: exI[of _ "Log (LogUnlocking (Path (heap s r))) # n1 @ [cmd]"])
    next
      case (Success out)
      let ?dev = "(heap s r)\<lparr>IsUnlocked := True\<rparr>"
      let ?s3 = "emit (Log (LogUnlocked (Path ?dev))) ((emit cmd s1)\<lparr>heap := (heap s)(r := ?dev)\<rparr>)"
      have u: "unlockDevice cfg w r s
                = sendNotification cfg (DeviceUnlocked (Notifications cfg)) ''Device Unlocked''
                        (\<lambda>name. name @ '' unlocked'') ?dev ?s3"
        using True g Ok Success n1(1)
        by (simp add: unlockDevice_def perform_def Let_def emit_def)
      from sendNotification_frame[OF assms[unfolded u]] obtain n2 where
        n2: "s' = ?s3\<lparr>trace := trace ?s3 @ n2\<rparr>" "\<not> list_ex mountStep n2" "attempts n2 = [] \<and> calls n2 = []"
          and nf: "\<forall>err. res \<noteq> Fail err"
        by blast
      show ?thesis
        using n1 n2 nf c
        by (cases res)
           (auto simp: emit_def
              intro!: exI[of _ "Log (LogUnlocking (Path (heap s r))) # n1 @ [cmd, Log (LogUnlocked (Path (heap s r)))] @ n2"])
    qed
  qed
qed

lemma mountAt_frame:
  assumes "mountAt cfg w r s = (res, s')"
  shows "case res of
           Ok u \<Rightarrow>
             (\<exists>mp rest. GetMountDirectory (heap s r) (MountBase cfg) = Inr mp
                \<and> s' = s\<lparr>heap := (heap s)(r := (heap s r)\<lparr>MountPoint := mp, IsMounted := True\<rparr>),
                          mounted := (mounted s)(Path (heap s r) \<mapsto> r),
                          trace := trace s @ [MkdirAll mp,
                            Log (LogMounting (Path (heap s r)) mp (FSType (heap s r))),
                            Exec ''mount''
                              (mountArgs (GetMountOptions cfg (FSType (heap s r)) (Label (heap s r))
                                            (UUID (heap s r)) (Path (heap s r))) (heap s r) mp) None,
                            Log (LogMounted (Path (heap s r)) mp)] @ rest\<rparr>
                \<and> \<not> list_ex mountStep rest \<and> attempts rest = [] \<and> calls rest = [])
         | Fail err \<Rightarrow> (\<exists>new. s' = s\<lparr>trace := trace s @ new\<rparr> \<and> attempts new = [] \<and> calls new = [])
         | Panic p \<Rightarrow> (\<exists>new. trace s' = trace s @ new)"
proof (cases "GetMountDirectory (heap s r) (MountBase cfg)")
  case (Inl p)
  with assms show ?thesis
    by (auto simp: mountAt_def intro: exI[of _ "[]"])
next
  case (Inr mp)
  let ?dev = "heap s r"
  let ?args = "mountArgs (GetMountOptions cfg (FSType ?dev) (Label ?dev) (UUID ?dev) (Path ?dev)) ?dev mp"
  show ?thesis
  proof (cases "answer w (trace s) (MkdirAll mp)")
    case (Failure err out)
    with assms Inr show ?thesis
      by (auto simp: mountAt_def perform_def emit_def intro!: exI[of _ "[MkdirAll mp]"])
  next
    case mk: (Success out)
    let ?t2 = "trace s @ [MkdirAll mp, Log (LogMounting (Path ?dev) mp (FSType ?dev))]"
    show ?thesis
    proof (cases "answer w ?t2 (Exec ''mount'' ?args None)")
      case (Failure err out2)
      with assms Inr mk show ?thesis
        by (auto simp: mountAt_def perform_def emit_def Let_def
                 intro!: exI[of _ "[MkdirAll mp, Log (LogMounting (Path ?dev) mp (FSType ?dev)),
                                    Exec ''mount'' ?args None]"])
    next
      case (Success out2)
      let ?dev1 = "?dev\<lparr>MountPoint := mp, IsMounted := True\<rparr>"
      let ?s5 = "s\<lparr>heap := (heap s)(r := ?dev1), mounted := (mounted s)(Path ?dev \<mapsto> r),
                    trace := ?t2 @ [Exec ''mount'' ?args None, Log (LogMounted (Path ?dev) mp)]\<rparr>"
      obtain nr s6 where n: "sendNotification cfg (DeviceMounted (Notifications cfg))
                                  ''Device Mounted''
                                  (\<lambda>name. name @ '' mounted at '' @ mp) ?dev1 ?s5 = (nr, s6)"
        by (cases "sendNotification cfg (DeviceMounted (Notifications cfg))
                                  ''Device Mounted''
                                  (\<lambda>name. name @ '' mounted at '' @ mp) ?dev1 ?s5") auto
      from sendNotification_frame[OF n] obtain n1 where
        n1: "s6 = ?s5\<lparr>trace := trace ?s5 @ n1\<rparr>" "\<not> list_ex mountStep n1" "attempts n1 = [] \<and> calls n1 = []"
          and nf: "\<forall>err. nr \<noteq> Fail err"
        by blast
      from executeEventHook_frame[of cfg "''device_mounted''" ?dev1 s6] obtain n2 where
        n2: "executeEventHook cfg ''device_mounted'' ?dev1 s6 = s6\<lparr>trace := trace s6 @ n2\<rparr>"
          "\<not> list_ex mountStep n2" "attempts n2 = [] \<and> calls n2 = []"
        by blast
      have m: "mountAt cfg w r s
                 = (case nr of
                      Panic p \<Rightarrow> (Panic p, s6)
                    | _ \<Rightarrow> (Ok (), if FileManager cfg \<noteq> []
                                    then emit (Spawn (FileManager cfg) [mp])
                                           (executeEventHook cfg ''device_mounted'' ?dev1 s6)
                                    else executeEventHook cfg ''device_mounted'' ?dev1 s6))"
        using Inr mk Success n
        by (simp add: mountAt_def perform_def emit_def Let_def split: res.splits)
      show ?thesis
      proof (cases nr)
        case (Fail err)
        with nf show ?thesis by simp
      next
        case (Panic p)
        with assms m n1 show ?thesis by auto
      next
        case (Ok u)
        show ?thesis
        proof (cases "FileManager cfg = []")
          case True
          with assms m Ok n1 n2 Inr show ?thesis
            by (auto intro!: exI[of _ "n1 @ n2"])
        next
          case False
          with assms m Ok n1 n2 Inr show ?thesis
            by (auto simp: emit_def intro!: exI[of _ "n1 @ n2 @ [Spawn (FileManager cfg) [mp]]"])
        qed
      qed
    qed
  qed
qed

lemma GetMountDirectory_unlocked [simp]:
  "GetMountDirectory (dev\<lparr>IsUnlocked := b\<rparr>) base = GetMountDirectory dev base"
  by (simp add: GetMountDirectory_def GetDisplayName_def)

lemma mountDevice_frame:
  assumes "mountDevice cfg w r s = (res, s')"
  shows "case res of
           Ok u \<Rightarrow>
             (\<exists>mp pre rest. GetMountDirectory (heap s r) (MountBase cfg) = Inr mp
                \<and> \<not> IsMounted (heap s r)
                \<and> s' = s\<lparr>heap := (heap s)(r := (heap s r)\<lparr>MountPoint := mp, IsMounted := True,
                                    IsUnlocked := IsUnlocked (heap s r) \<or> IsEncrypted (heap s r)\<rparr>),
                          mounted := (mounted s)(Path (heap s r) \<mapsto> r),
                          trace := trace s @ pre @ [MkdirAll mp,
                            Log (LogMounting (Path (heap s r)) mp (FSType (heap s r))),
                            Exec ''mount''
                              (mountArgs (GetMountOptions cfg (FSType (heap s r)) (Label (heap s r))
                                            (UUID (heap s r)) (Path (heap s r))) (heap s r) mp) None,
                            Log (LogMounted (Path (heap s r)) mp)] @ rest\<rparr>
                \<and> \<not> list_ex mountStep pre \<and> attempts pre = [] \<and> calls pre = []
                \<and> \<not> list_ex mountStep rest \<and> attempts rest = [] \<and> calls rest = [])
         | Fail err \<Rightarrow>
             (\<exists>new. attempts new = [] \<and> calls new = [] \<and> trace s' = trace s @ new \<and> mounted s' = mounted s
                \<and> mgrDevices s' = mgrDevices s \<and> nextRef s' = nextRef s
                \<and> (\<forall>r'. r' \<noteq> r \<longrightarrow> heap s' r' = heap s r')
                \<and> Path (heap s' r) = Path (heap s r))
         | Panic p \<Rightarrow> True"
proof (cases "IsMounted (heap s r)")
  case True
  with assms show ?thesis
    by (auto simp: mountDevice_def intro: exI[of _ "[]"])
next
  case nm: False
  show ?thesis
  proof (cases "IsEncrypted (heap s r) \<and> \<not> IsUnlocked (heap s r)")
    case False
    with nm assms have a: "mountAt cfg w r s = (res, s')"
      by (auto simp: mountDevice_def)
    have eq: "(heap s r)\<lparr>MountPoint := mp, IsMounted := True,
                 IsUnlocked := IsUnlocked (heap s r) \<or> IsEncrypted (heap s r)\<rparr>
               = (heap s r)\<lparr>MountPoint := mp, IsMounted := True\<rparr>" for mp
      using False by (cases "heap s r") auto
    show ?thesis
    proof (cases res)
      case (Ok x)
      from mountAt_frame[OF a] Ok obtain mp rest where
        f: "GetMountDirectory (heap s r) (MountBase cfg) = Inr mp"
          "s' = s\<lparr>heap := (heap s)(r := (heap s r)\<lparr>MountPoint := mp, IsMounted := True\<rparr>),
                          mounted := (mounted s)(Path (heap s r) \<mapsto> r),
                          trace := trace s @ [MkdirAll mp,
                            Log (LogMounting (Path (heap s r)) mp (FSType (heap s r))),
                            Exec ''mount''
                              (mountArgs (GetMountOptions cfg (FSType (heap s r)) (Label (heap s r))
                                            (UUID (heap s r)) (Path (heap s r))) (heap s r) mp) None,
                            Log (LogMounted (Path (heap s r)) mp)] @ rest\<rparr>"
          "\<not> list_ex mountStep rest" "attempts rest = [] \<and> calls rest = []"
        by auto
      show ?thesis
        unfolding Ok res.case
        by (rule exI[of _ mp], rule exI[of _ "[]"], rule exI[of _ rest]) (simp add: f eq nm)
    next
      case (Fail err)
      with mountAt_frame[OF a] show ?thesis by auto
    next
      case (Panic p)
      then show ?thesis by simp
    qed
  next
    case True
    obtain ur s1 where u: "unlockDevice cfg w r s = (ur, s1)"
      by (cases "unlockDevice cfg w r s") auto
    from unlockDevice_frame[OF u] obtain n1 where
      n1: "\<not> list_ex mountStep n1" "attempts n1 = [] \<and> calls n1 = []"
        "case ur of
                 Ok u \<Rightarrow> s1 = s\<lparr>heap := (heap s)(r := (heap s r)\<lparr>IsUnlocked := True\<rparr>),
                                 trace := trace s @ n1\<rparr>
               | Fail err \<Rightarrow> s1 = s\<lparr>trace := trace s @ n1\<rparr>
               | Panic p \<Rightarrow> mounted s1 = mounted s \<and> trace s1 = trace s @ n1"
      by blast
    show ?thesis
    proof (cases ur)
      case (Fail err)
      with assms nm True u n1 show ?thesis
        by (auto simp: mountDevice_def)
    next
      case (Panic p)
      with assms nm True u show ?thesis
        by (auto simp: mountDevice_def)
    next
      case (Ok x)
      with n1 have s1: "s1 = s\<lparr>heap := (heap s)(r := (heap s r)\<lparr>IsUnlocked := True\<rparr>),
                                 trace := trace s @ n1\<rparr>"
        by simp
      from assms nm True u Ok have a: "mountAt cfg w r s1 = (res, s')"
        by (auto simp: mountDevice_def)
      have eq: "(heap s r)\<lparr>IsUnlocked := True, MountPoint := mp, IsMounted := True\<rparr>
               = (heap s r)\<lparr>MountPoint := mp, IsMounted := True,
                 IsUnlocked := IsUnlocked (heap s r) \<or> IsEncrypted (heap s r)\<rparr>" for mp
        using True by (cases "heap s r") auto
      have h1: "heap s1 r = (heap s r)\<lparr>IsUnlocked := True\<rparr>" and t1: "trace s1 = trace s @ n1"
        and m1: "mounted s1 = mounted s"
        by (simp_all add: s1)
      have ma: "mountArgs opts ((heap s r)\<lparr>IsUnlocked := True\<rparr>) mp = mountArgs opts (heap s r) mp"
        for opts mp
        by (simp add: mountArgs_def)
      show ?thesis
      proof (cases res)
        case Ok2: (Ok y)
        from mountAt_frame[OF a] Ok2 obtain mp rest where
          f: "GetMountDirectory (heap s1 r) (MountBase cfg) = Inr mp"
            "s' = s1\<lparr>heap := (heap s1)(r := (heap s1 r)\<lparr>MountPoint := mp, IsMounted := True\<rparr>),
                          mounted := (mounted s1)(Path (heap s1 r) \<mapsto> r),
                          trace := trace s1 @ [MkdirAll mp,
                            Log (LogMounting (Path (heap s1 r)) mp (FSType (heap s1 r))),
                            Exec ''mount''
                              (mountArgs (GetMountOptions cfg (FSType (heap s1 r)) (Label (heap s1 r))
                                            (UUID (heap s1 r)) (Path (heap s1 r))) (heap s1 r) mp) None,
                            Log (LogMounted (Path (heap s1 r)) mp)] @ rest\<rparr>"
            "\<not> list_ex mountStep rest" "attempts rest = [] \<and> calls rest = []"
          by auto
        show ?thesis
          unfolding Ok2 res.case
          by (rule exI[of _ mp], rule exI[of _ n1], rule exI[of _ rest])
             (use f n1(1,2) nm in \<open>simp add: h1 t1 m1 ma eq\<close>, simp add: s1)
      next
        case (Fail err)
        with mountAt_frame[OF a] n1(2) show ?thesis by (auto simp: s1)
      next
        case (Panic p)
        then show ?thesis by simp
      qed
    qed
  qed
qed

text \<open>
  C7. For a device that is mounted, when the \<^verbatim>\<open>umount\<close> run that
  \<^verbatim>\<open>unmountDevice\<close> makes fails, \<^verbatim>\<open>unmountDevice\<close> returns the error (wrapping
  the tool's error and output) and changes nothing but the trace: the \<^verbatim>\<open>mounted\<close>
  map and every device record, with the device's \<^verbatim>\<open>MountPoint\<close> and
  \<^verbatim>\<open>IsMounted\<close>, are as before.
\<close>

theorem unmountDevice_failure_keeps_bookkeeping:
  assumes "IsMounted (heap s r)"
    and "answer w (trace s @ [Log (LogUnmounting (Path (heap s r)) (MountPoint (heap s r)))])
           (Exec ''umount'' [MountPoint (heap s r)] None) = Failure err out"
    and "unmountDevice cfg w r s = (res, s')"
  shows "res = Fail (UnmountFailed (OSError err) out)
       \<and> s' = s\<lparr>trace := trace s @ [Log (LogUnmounting (Path (heap s r)) (MountPoint (heap s r))),
                                     Exec ''umount'' [MountPoint (heap s r)] None]\<rparr>
       \<and> mounted s' = mounted s \<and> heap s' = heap s
       \<and> IsMounted (heap s' r) \<and> MountPoint (heap s' r) = MountPoint (heap s r)"
  using assms by (auto simp add: unmountDevice_def Let_def perform_def emit_def)

theorem unmountDevice_failure_keeps_bookkeeping_witness:
  "IsMounted (heap busyState 0)
   \<and> fst (unmountDevice Default hostWorld 0 busyState)
       = Fail (UnmountFailed (OSError ''exit status 1'')
                 ''umount: unmount of /media/BUSY failed: Device busy'')
   \<and> mounted (snd (unmountDevice Default hostWorld 0 busyState)) = mounted busyState
   \<and> heap (snd (unmountDevice Default hostWorld 0 busyState)) = heap busyState
   \<and> mounted busyState ''/dev/da0p1'' = Some 0"
proof -
  have 1: "IsMounted (heap busyState 0)"
    by code_simp
  have 2: "answer hostWorld
             (trace busyState @ [Log (LogUnmounting (Path (heap busyState 0)) (MountPoint (heap busyState 0)))])
             (Exec ''umount'' [MountPoint (heap busyState 0)] None)
           = Failure ''exit status 1'' ''umount: unmount of /media/BUSY failed: Device busy''"
    by code_simp
  have 3: "unmountDevice Default hostWorld 0 busyState
             = (fst (unmountDevice Default hostWorld 0 busyState),
                snd (unmountDevice Default hostWorld 0 busyState))"
    by simp
  have 4: "mounted busyState ''/dev/da0p1'' = Some 0"
    by code_simp
  from unmountDevice_failure_keeps_bookkeeping[OF 1 2 3] 1 4 show ?thesis
    by simp
qed

text \<open>
  C9. For a device with \<^verbatim>\<open>IsEncrypted\<close> true and \<^verbatim>\<open>IsUnlocked\<close> false:
  if it is mounted already, \<^verbatim>\<open>mountDevice\<close> returns an error at once and does
  nothing; otherwise it runs \<^verbatim>\<open>unlockDevice\<close> first (the trace of the unlock is a
  prefix of the trace of the mount, and it holds no mount step), and when the unlock
  returns an error, \<^verbatim>\<open>mountDevice\<close> returns that error wrapped and stops in the
  state the unlock left: no directory was created, the mount tool was not run, and the
  \<^verbatim>\<open>mounted\<close> map and the device records are as before.
\<close>

theorem mountDevice_unlocks_first:
  assumes enc: "IsEncrypted (heap s r)" and locked: "\<not> IsUnlocked (heap s r)"
    and u: "unlockDevice cfg w r s = (ur, s1)"
    and m: "mountDevice cfg w r s = (mr, s2)"
  shows "(IsMounted (heap s r) \<longrightarrow> mr = Fail (AlreadyMounted (MountPoint (heap s r))) \<and> s2 = s)
       \<and> (\<not> IsMounted (heap s r) \<longrightarrow>
            prefix (trace s) (trace s1) \<and> prefix (trace s1) (trace s2)
            \<and> \<not> list_ex mountStep (drop (length (trace s)) (trace s1))
            \<and> (\<forall>err. ur = Fail err \<longrightarrow>
                  mr = Fail (UnlockFailed err) \<and> s2 = s1
                  \<and> mounted s2 = mounted s \<and> heap s2 = heap s
                  \<and> \<not> list_ex mountStep (drop (length (trace s)) (trace s2))))"
proof (cases "IsMounted (heap s r)")
  case True
  with m show ?thesis by (auto simp: mountDevice_def)
next
  case False
  from unlockDevice_frame[OF u] obtain n1 where
    n1: "\<not> list_ex mountStep n1"
      "case ur of
                 Ok u \<Rightarrow> s1 = s\<lparr>heap := (heap s)(r := (heap s r)\<lparr>IsUnlocked := True\<rparr>),
                                 trace := trace s @ n1\<rparr>
               | Fail err \<Rightarrow> s1 = s\<lparr>trace := trace s @ n1\<rparr>
               | Panic p \<Rightarrow> mounted s1 = mounted s \<and> trace s1 = trace s @ n1"
    by blast
  then have t1: "trace s1 = trace s @ n1"
    by (cases ur) auto
  have p2: "prefix (trace s1) (trace s2)"
  proof (cases ur)
    case (Ok x)
    with m u False enc locked have a: "mountAt cfg w r s1 = (mr, s2)"
      by (simp add: mountDevice_def)
    from mountAt_frame[OF a] show ?thesis
      by (cases mr) auto
  next
    case (Fail err)
    with m u False enc locked show ?thesis by (simp add: mountDevice_def)
  next
    case (Panic p)
    with m u False enc locked show ?thesis by (simp add: mountDevice_def)
  qed
  have f: "mr = Fail (UnlockFailed err) \<and> s2 = s1 \<and> mounted s2 = mounted s \<and> heap s2 = heap s
           \<and> \<not> list_ex mountStep (drop (length (trace s)) (trace s2))"
    if "ur = Fail err" for err
    using that m u False enc locked n1 by (auto simp: mountDevice_def)
  from False t1 n1(1) p2 f show ?thesis by auto
qed

theorem mountDevice_unlocks_first_witness:
  "IsEncrypted (heap encryptedState 0) \<and> \<not> IsUnlocked (heap encryptedState 0)
   \<and> \<not> IsMounted (heap encryptedState 0)
   \<and> fst (unlockDevice Default hostWorld 0 encryptedState)
       = Fail (GeliAttachFailed (OSError ''exit status 1'') ''geli: Wrong key for da0p1.'')
   \<and> fst (mountDevice Default hostWorld 0 encryptedState)
       = Fail (UnlockFailed (GeliAttachFailed (OSError ''exit status 1'')
                 ''geli: Wrong key for da0p1.''))
   \<and> mounted (snd (mountDevice Default hostWorld 0 encryptedState)) = mounted encryptedState
   \<and> \<not> list_ex mountStep (drop (length (trace encryptedState))
                              (trace (snd (mountDevice Default hostWorld 0 encryptedState))))"
proof -
  let ?u = "unlockDevice Default hostWorld 0 encryptedState"
  let ?m = "mountDevice Default hostWorld 0 encryptedState"
  have 1: "IsEncrypted (heap encryptedState 0)" by code_simp
  have 2: "\<not> IsUnlocked (heap encryptedState 0)" by code_simp
  have 3: "\<not> IsMounted (heap encryptedState 0)" by code_simp
  have 4: "fst ?u = Fail (GeliAttachFailed (OSError ''exit status 1'') ''geli: Wrong key for da0p1.'')"
    by code_simp
  have u: "?u = (fst ?u, snd ?u)" and m: "?m = (fst ?m, snd ?m)"
    by simp_all
  from mountDevice_unlocks_first[OF 1 2 u m] 1 2 3 4 show ?thesis
    by blast
qed

text \<open>
  C8. After a successful \<^verbatim>\<open>mountDevice\<close> followed by a successful
  \<^verbatim>\<open>unmountDevice\<close> of the same device, the \<^verbatim>\<open>mounted\<close> map has no entry for
  the device's path (it is the map before the mount with that path removed), the device's
  \<^verbatim>\<open>MountPoint\<close> is empty and \<^verbatim>\<open>IsMounted\<close> is false (the record is the one
  before the mount, but for an empty mount point and for \<^verbatim>\<open>IsUnlocked\<close>, which stays
  set when the mount unlocked the device), and right after the \<^verbatim>\<open>umount\<close> the daemon
  calls \<^verbatim>\<open>os.Remove\<close> on the directory that the mount passed to
  \<^verbatim>\<open>os.MkdirAll\<close>; \<^verbatim>\<open>os.Remove\<close> removes a directory only if it is empty.
\<close>

theorem mount_then_unmount_restores:
  assumes m: "mountDevice cfg w r s = (Ok (), s1)"
    and u: "unmountDevice cfg w r s1 = (Ok (), s2)"
  shows "mounted s2 (Path (heap s r)) = None
       \<and> MountPoint (heap s2 r) = [] \<and> \<not> IsMounted (heap s2 r)
       \<and> mounted s2 = (mounted s)(Path (heap s r) := None)
       \<and> heap s2 = (heap s)(r := (heap s r)\<lparr>MountPoint := [],
                        IsUnlocked := IsUnlocked (heap s r) \<or> IsEncrypted (heap s r)\<rparr>)
       \<and> (\<exists>mp. GetMountDirectory (heap s r) (MountBase cfg) = Inr mp
             \<and> MkdirAll mp \<in> set (drop (length (trace s)) (trace s1))
             \<and> take 3 (drop (length (trace s1)) (trace s2))
                 = [Log (LogUnmounting (Path (heap s r)) mp), Exec ''umount'' [mp] None, Remove mp])"
proof -
  let ?dev = "heap s r"
  from mountDevice_frame[OF m] obtain mp pre rest where
    f: "GetMountDirectory ?dev (MountBase cfg) = Inr mp" "\<not> IsMounted ?dev"
      "s1 = s\<lparr>heap := (heap s)(r := ?dev\<lparr>MountPoint := mp, IsMounted := True,
                                    IsUnlocked := IsUnlocked ?dev \<or> IsEncrypted ?dev\<rparr>),
               mounted := (mounted s)(Path ?dev \<mapsto> r),
               trace := trace s @ pre @ [MkdirAll mp,
                            Log (LogMounting (Path ?dev) mp (FSType ?dev)),
                            Exec ''mount''
                              (mountArgs (GetMountOptions cfg (FSType ?dev) (Label ?dev)
                                            (UUID ?dev) (Path ?dev)) ?dev mp) None,
                            Log (LogMounted (Path ?dev) mp)] @ rest\<rparr>"
    by auto
  have h1: "heap s1 r = ?dev\<lparr>MountPoint := mp, IsMounted := True,
                                    IsUnlocked := IsUnlocked ?dev \<or> IsEncrypted ?dev\<rparr>"
    and hs1: "heap s1 = (heap s)(r := ?dev\<lparr>MountPoint := mp, IsMounted := True,
                                    IsUnlocked := IsUnlocked ?dev \<or> IsEncrypted ?dev\<rparr>)"
    and m1: "mounted s1 = (mounted s)(Path ?dev \<mapsto> r)"
    by (simp_all add: f(3))
  let ?dev1 = "(heap s1 r)\<lparr>MountPoint := [], IsMounted := False\<rparr>"
  let ?s3 = "emit (Exec ''umount'' [mp] None) (emit (Log (LogUnmounting (Path ?dev) mp)) s1)
               \<lparr>heap := (heap s1)(r := ?dev1), mounted := (mounted s1)(Path ?dev := None)\<rparr>"
  let ?s5 = "emit (Log (LogUnmounted (Path ?dev))) (emit (Remove mp) ?s3)"
  obtain nr s6 where n: "sendNotification cfg (DeviceUnmounted (Notifications cfg))
                           ''Device Unmounted'' (\<lambda>name. name @ '' unmounted'') ?dev1 ?s5 = (nr, s6)"
    by (cases "sendNotification cfg (DeviceUnmounted (Notifications cfg))
                           ''Device Unmounted'' (\<lambda>name. name @ '' unmounted'') ?dev1 ?s5") auto
  from sendNotification_frame[OF n] obtain n1 where
    n1: "s6 = ?s5\<lparr>trace := trace ?s5 @ n1\<rparr>"
    by blast
  from executeEventHook_frame[of cfg "''device_unmounted''" ?dev1 s6] obtain n2 where
    n2: "executeEventHook cfg ''device_unmounted'' ?dev1 s6 = s6\<lparr>trace := trace s6 @ n2\<rparr>"
    by blast
  have s2: "s2 = s6\<lparr>trace := trace s6 @ n2\<rparr>"
    using u n n2 h1
    by (auto simp: unmountDevice_def Let_def perform_def split: outcome.splits res.splits)
  have t2: "trace s2 = trace s1 @ [Log (LogUnmounting (Path ?dev) mp), Exec ''umount'' [mp] None,
                                    Remove mp, Log (LogUnmounted (Path ?dev))] @ n1 @ n2"
    by (simp add: s2 n1 emit_def)
  have hp: "heap s2 = (heap s1)(r := ?dev1)" and mm: "mounted s2 = (mounted s1)(Path ?dev := None)"
    by (simp_all add: s2 n1 emit_def)
  have hh: "heap s2 = (heap s)(r := ?dev\<lparr>MountPoint := [],
                        IsUnlocked := IsUnlocked ?dev \<or> IsEncrypted ?dev\<rparr>)"
    using f(2) by (simp add: hp hs1 fun_eq_iff)
  have mk: "MkdirAll mp \<in> set (drop (length (trace s)) (trace s1))"
    by (simp add: f(3))
  have tk: "take 3 (drop (length (trace s1)) (trace s2))
                 = [Log (LogUnmounting (Path ?dev) mp), Exec ''umount'' [mp] None, Remove mp]"
    by (simp add: t2)
  show ?thesis
    using f(1,2) mk tk hh by (simp add: mm m1)
qed

theorem mount_then_unmount_restores_witness:
  "fst (mountDevice Default calmWorld 0 stickState) = Ok ()
   \<and> fst (unmountDevice Default calmWorld 0 (snd (mountDevice Default calmWorld 0 stickState))) = Ok ()
   \<and> GetMountDirectory (heap stickState 0) (MountBase Default) = Inr ''/media/USB_STICK''
   \<and> mounted (snd (unmountDevice Default calmWorld 0 (snd (mountDevice Default calmWorld 0 stickState))))
        ''/dev/da0p1'' = None
   \<and> take 3 (drop (length (trace (snd (mountDevice Default calmWorld 0 stickState))))
         (trace (snd (unmountDevice Default calmWorld 0 (snd (mountDevice Default calmWorld 0 stickState))))))
       = [Log (LogUnmounting ''/dev/da0p1'' ''/media/USB_STICK''),
          Exec ''umount'' [''/media/USB_STICK''] None, Remove ''/media/USB_STICK'']"
proof -
  let ?m = "mountDevice Default calmWorld 0 stickState"
  let ?u = "unmountDevice Default calmWorld 0 (snd ?m)"
  have 1: "fst ?m = Ok ()" by code_simp
  have 2: "fst ?u = Ok ()" by code_simp
  have 3: "GetMountDirectory (heap stickState 0) (MountBase Default) = Inr ''/media/USB_STICK''"
    by code_simp
  have 4: "Path (heap stickState 0) = ''/dev/da0p1''" by code_simp
  have m: "?m = (Ok (), snd ?m)" using 1 by (simp add: prod_eq_iff)
  have u: "?u = (Ok (), snd ?u)" using 2 by (simp add: prod_eq_iff)
  from mount_then_unmount_restores[OF m u] 1 2 3 4 show ?thesis
    by simp
qed

lemma mountDevice_failed_record:
  assumes "mountDevice cfg w r s = (Fail err, s')"
  shows "IsMounted (heap s' r) = IsMounted (heap s r)"
proof (cases "IsMounted (heap s r)")
  case True
  with assms show ?thesis
    by (auto simp: mountDevice_def)
next
  case nm: False
  show ?thesis
  proof (cases "IsEncrypted (heap s r) \<and> \<not> IsUnlocked (heap s r)")
    case False
    with nm assms have "mountAt cfg w r s = (Fail err, s')"
      by (auto simp: mountDevice_def)
    from mountAt_frame[OF this] show ?thesis
      by auto
  next
    case True
    obtain ur s1 where u: "unlockDevice cfg w r s = (ur, s1)"
      by (cases "unlockDevice cfg w r s") auto
    from unlockDevice_frame[OF u] obtain n1 where
      n1: "case ur of
                 Ok u \<Rightarrow> s1 = s\<lparr>heap := (heap s)(r := (heap s r)\<lparr>IsUnlocked := True\<rparr>),
                                 trace := trace s @ n1\<rparr>
               | Fail err \<Rightarrow> s1 = s\<lparr>trace := trace s @ n1\<rparr>
               | Panic p \<Rightarrow> mounted s1 = mounted s \<and> trace s1 = trace s @ n1"
      by blast
    show ?thesis
    proof (cases ur)
      case (Fail e)
      with assms nm True u n1 show ?thesis
        by (auto simp: mountDevice_def)
    next
      case (Panic p)
      with assms nm True u show ?thesis
        by (auto simp: mountDevice_def)
    next
      case (Ok x)
      with n1 have s1: "s1 = s\<lparr>heap := (heap s)(r := (heap s r)\<lparr>IsUnlocked := True\<rparr>),
                                 trace := trace s @ n1\<rparr>"
        by simp
      from assms nm True u Ok have "mountAt cfg w r s1 = (Fail err, s')"
        by (auto simp: mountDevice_def)
      from mountAt_frame[OF this] show ?thesis
        by (auto simp: s1)
    qed
  qed
qed

lemma mountEach_attemptEach:
  assumes "distinct rs"
  shows "mountEach cfg w rs s
           = attemptEach cfg w
               (filter (\<lambda>r. IsPartition (heap s r) \<and> \<not> IsMounted (heap s r)) rs) s"
  using assms
proof (induction rs arbitrary: s)
  case Nil
  show ?case by simp
next
  case (Cons r rs)
  from Cons.prems have d: "distinct rs" and nin: "r \<notin> set rs"
    by simp_all
  show ?case
  proof (cases "IsPartition (heap s r) \<and> \<not> IsMounted (heap s r)")
    case False
    with Cons.IH[OF d, of s] show ?thesis by auto
  next
    case True
    obtain mr s1 where m: "mountDevice cfg w r s = (mr, s1)"
      by (cases "mountDevice cfg w r s") auto
    have same: "filter (\<lambda>r. IsPartition (heap t r) \<and> \<not> IsMounted (heap t r)) rs
                  = filter (\<lambda>r. IsPartition (heap s r) \<and> \<not> IsMounted (heap s r)) rs"
      if "\<forall>r'. r' \<noteq> r \<longrightarrow> heap t r' = heap s r'" for t
      using that nin by (intro filter_cong) auto
    show ?thesis
    proof (cases mr)
      case (Panic p)
      with True m show ?thesis by simp
    next
      case (Ok u)
      from mountDevice_frame[OF m] Ok have "\<forall>r'. r' \<noteq> r \<longrightarrow> heap s1 r' = heap s r'"
        by auto
      from same[OF this] Cons.IH[OF d, of s1] True m Ok show ?thesis
        by simp
    next
      case (Fail err)
      let ?s1 = "emit (Log (LogFailedMount (Path (heap s1 r)) err)) s1"
      from mountDevice_frame[OF m] Fail have "\<forall>r'. r' \<noteq> r \<longrightarrow> heap ?s1 r' = heap s r'"
        by auto
      from same[OF this] Cons.IH[OF d, of ?s1] True m Fail show ?thesis
        by simp
    qed
  qed
qed

lemma attemptEach_outcomes:
  assumes "distinct rs" and "\<forall>r \<in> set rs. \<not> IsMounted (heap s r)"
    and "attemptEach cfg w rs s = (res, s')" and "\<not> panicked res"
  shows "res = Ok ()
       \<and> (\<exists>new. trace s' = trace s @ new
             \<and> attempts new = map (\<lambda>r. (Path (heap s r), IsMounted (heap s' r))) rs)
       \<and> (\<forall>r. r \<notin> set rs \<longrightarrow> heap s' r = heap s r)"
  using assms
proof (induction rs arbitrary: s)
  case Nil
  then show ?case by simp
next
  case (Cons r rs)
  from Cons.prems(1) have d: "distinct rs" and nin: "r \<notin> set rs"
    by simp_all
  obtain mr s1 where m: "mountDevice cfg w r s = (mr, s1)"
    by (cases "mountDevice cfg w r s") auto
  show ?case
  proof (cases mr)
    case (Panic p)
    with Cons.prems(3,4) m show ?thesis
      by (auto simp: panicked_def)
  next
    case (Ok u)
    with Cons.prems(3) m have e: "attemptEach cfg w rs s1 = (res, s')" by simp
    from mountDevice_frame[OF m] Ok obtain n1 where
      n1: "trace s1 = trace s @ n1" "attempts n1 = [(Path (heap s r), True)]"
        "\<forall>r'. r' \<noteq> r \<longrightarrow> heap s1 r' = heap s r'" "IsMounted (heap s1 r)"
      by auto
    have um: "\<forall>r' \<in> set rs. \<not> IsMounted (heap s1 r')"
      using Cons.prems(2) n1(3) nin by auto
    from Cons.IH[OF d um e Cons.prems(4)] obtain n2 where
      n2: "res = Ok ()" "trace s' = trace s1 @ n2"
        "attempts n2 = map (\<lambda>r. (Path (heap s1 r), IsMounted (heap s' r))) rs"
        "\<forall>r. r \<notin> set rs \<longrightarrow> heap s' r = heap s1 r"
      by auto
    have paths: "map (\<lambda>r. (Path (heap s1 r), IsMounted (heap s' r))) rs
                   = map (\<lambda>r. (Path (heap s r), IsMounted (heap s' r))) rs"
      using n1(3) nin by (intro map_cong) auto
    have here: "IsMounted (heap s' r)"
      using n2(4) nin n1(4) by simp
    have others: "\<forall>r'. r' \<notin> set (r # rs) \<longrightarrow> heap s' r' = heap s r'"
      using n2(4) n1(3) by simp
    have "trace s' = trace s @ (n1 @ n2)
            \<and> attempts (n1 @ n2) = map (\<lambda>r. (Path (heap s r), IsMounted (heap s' r))) (r # rs)"
      using n1(1,2) n2(2,3) paths here by simp
    with n2(1) others show ?thesis
      by blast
  next
    case (Fail err)
    let ?s1 = "emit (Log (LogFailedMount (Path (heap s1 r)) err)) s1"
    from Cons.prems(3) m Fail have e: "attemptEach cfg w rs ?s1 = (res, s')" by simp
    from mountDevice_frame[OF m] Fail obtain n1 where
      n1: "trace s1 = trace s @ n1" "attempts n1 = []"
        "\<forall>r'. r' \<noteq> r \<longrightarrow> heap s1 r' = heap s r'" "Path (heap s1 r) = Path (heap s r)"
      by auto
    from mountDevice_failed_record[OF m[unfolded Fail]] Cons.prems(2)
    have nm: "\<not> IsMounted (heap s1 r)"
      by simp
    have um: "\<forall>r' \<in> set rs. \<not> IsMounted (heap ?s1 r')"
      using Cons.prems(2) n1(3) nin by auto
    from Cons.IH[OF d um e Cons.prems(4)] obtain n2 where
      n2: "res = Ok ()" "trace s' = trace ?s1 @ n2"
        "attempts n2 = map (\<lambda>r. (Path (heap ?s1 r), IsMounted (heap s' r))) rs"
        "\<forall>r. r \<notin> set rs \<longrightarrow> heap s' r = heap ?s1 r"
      by auto
    have paths: "map (\<lambda>r. (Path (heap ?s1 r), IsMounted (heap s' r))) rs
                   = map (\<lambda>r. (Path (heap s r), IsMounted (heap s' r))) rs"
      using n1(3) nin by (intro map_cong) auto
    have here: "\<not> IsMounted (heap s' r)"
      using n2(4) nin nm by simp
    have others: "\<forall>r'. r' \<notin> set (r # rs) \<longrightarrow> heap s' r' = heap s r'"
      using n2(4) n1(3) by simp
    let ?new = "n1 @ [Log (LogFailedMount (Path (heap s r)) err)] @ n2"
    have "trace s' = trace s @ ?new
            \<and> attempts ?new = map (\<lambda>r. (Path (heap s r), IsMounted (heap s' r))) (r # rs)"
      using n1(1,2,4) n2(2,3) paths here by simp
    with n2(1) others show ?thesis
      by blast
  qed
qed

lemma deviceMgrScan_distinct:
  assumes "deviceMgrScan w s = (Ok devices, s1)"
  shows "distinct devices"
  using assms
  by (auto simp: deviceMgrScan_def Scan_cases allocDevices_refs split: sum.splits if_splits)

text \<open>
  C6. The claim is that "mount all" returns a count of successful mounts and a list of
  the failures, 2 and one error for three devices of which the second fails. In that
  scenario the first and the third partition are mounted and the failure of the second is
  logged, but \<^verbatim>\<open>MountAll\<close> returns nil, the only value it returns after a scan that
  succeeded: its result type is \<^verbatim>\<open>error\<close>.
\<close>

theorem MountAll_returns_no_count:
  "fst (MountAll Default hostWorld New) = Ok ()
   \<and> attempts (trace (snd (MountAll Default hostWorld New)))
       = [(''/dev/da0p1'', True), (''/dev/da0p2'', False), (''/dev/da0p3'', True)]
   \<and> map (\<lambda>r. IsMounted (heap (snd (MountAll Default hostWorld New)) r)) [1, 2, 3]
       = [True, False, True]"
proof -
  have 1: "fst (MountAll Default hostWorld New) = Ok ()"
    by code_simp
  have 2: "attempts (trace (snd (MountAll Default hostWorld New)))
       = [(''/dev/da0p1'', True), (''/dev/da0p2'', False), (''/dev/da0p3'', True)]"
    by code_simp
  have 3: "map (\<lambda>r. IsMounted (heap (snd (MountAll Default hostWorld New)) r)) [1, 2, 3]
       = [True, False, True]"
    by code_simp
  from 1 2 3 show ?thesis by simp
qed

text \<open>
  C6, as amended. When the scan succeeds and no attempt panics, \<^verbatim>\<open>MountAll\<close>
  attempts every partition of the scan that was not mounted when it was scanned, each on
  its own: it calls \<^verbatim>\<open>mountDevice\<close> on each of them, in the order of the scan and
  in the state that the attempt before it left; an attempt that fails is logged with its
  error and does not stop the attempts that remain. \<^verbatim>\<open>MountAll\<close> then returns nil,
  so neither a count of the mounts nor a list of the failures, and the log shows one
  outcome for each of these partitions, in the order of the scan: mounted for those that
  are mounted in the end, failed to mount for the others. (The first conjunct holds also
  when an attempt panics: the panic ends \<open>attemptEach\<close> as it ends \<^verbatim>\<open>MountAll\<close>.)
\<close>

theorem MountAll_attempts_every_partition:
  assumes scan: "deviceMgrScan w s = (Ok devices, s1)"
    and run: "MountAll cfg w s = (res, s2)"
  shows "attemptEach cfg w
           (filter (\<lambda>r. IsPartition (heap s1 r) \<and> \<not> IsMounted (heap s1 r)) devices) s1
           = (res, s2)
       \<and> (\<not> panicked res \<longrightarrow>
            res = Ok ()
            \<and> prefix (trace s1) (trace s2)
            \<and> attempts (drop (length (trace s1)) (trace s2))
                = map (\<lambda>r. (Path (heap s1 r), IsMounted (heap s2 r)))
                    (filter (\<lambda>r. IsPartition (heap s1 r) \<and> \<not> IsMounted (heap s1 r)) devices))"
proof -
  let ?rs = "filter (\<lambda>r. IsPartition (heap s1 r) \<and> \<not> IsMounted (heap s1 r)) devices"
  from scan run have e: "mountEach cfg w devices s1 = (res, s2)"
    by (simp add: MountAll_def)
  have d: "distinct devices"
    using deviceMgrScan_distinct[OF scan] .
  from e mountEach_attemptEach[OF d, of cfg w s1] have a: "attemptEach cfg w ?rs s1 = (res, s2)"
    by simp
  have "res = Ok () \<and> prefix (trace s1) (trace s2)
          \<and> attempts (drop (length (trace s1)) (trace s2))
              = map (\<lambda>r. (Path (heap s1 r), IsMounted (heap s2 r))) ?rs"
    if np: "\<not> panicked res"
  proof -
    have "distinct ?rs" and "\<forall>r \<in> set ?rs. \<not> IsMounted (heap s1 r)"
      using d by simp_all
    from attemptEach_outcomes[OF this a np] show ?thesis
      by auto
  qed
  with a show ?thesis
    by blast
qed

theorem MountAll_attempts_every_partition_witness:
  "fst (deviceMgrScan hostWorld New) = Ok [0, 1, 2, 3]
   \<and> filter (\<lambda>r. IsPartition (heap (snd (deviceMgrScan hostWorld New)) r)
                 \<and> \<not> IsMounted (heap (snd (deviceMgrScan hostWorld New)) r)) [0, 1, 2, 3]
       = [1, 2, 3]
   \<and> attemptEach Default hostWorld [1, 2, 3] (snd (deviceMgrScan hostWorld New))
       = MountAll Default hostWorld New
   \<and> fst (MountAll Default hostWorld New) = Ok ()
   \<and> attempts (drop (length (trace (snd (deviceMgrScan hostWorld New))))
                 (trace (snd (MountAll Default hostWorld New))))
       = [(''/dev/da0p1'', True), (''/dev/da0p2'', False), (''/dev/da0p3'', True)]"
proof -
  let ?s1 = "snd (deviceMgrScan hostWorld New)"
  let ?s2 = "snd (MountAll Default hostWorld New)"
  have 1: "fst (deviceMgrScan hostWorld New) = Ok [0, 1, 2, 3]"
    by code_simp
  have 2: "fst (MountAll Default hostWorld New) = Ok ()"
    by code_simp
  have 3: "filter (\<lambda>r. IsPartition (heap ?s1 r) \<and> \<not> IsMounted (heap ?s1 r)) [0, 1, 2, 3]
             = [1, 2, 3]"
    by code_simp
  have 4: "map (\<lambda>r. Path (heap ?s1 r)) [1, 2, 3] = [''/dev/da0p1'', ''/dev/da0p2'', ''/dev/da0p3'']"
    by code_simp
  have 5: "map (\<lambda>r. IsMounted (heap ?s2 r)) [1, 2, 3] = [True, False, True]"
    by code_simp
  have np: "\<not> panicked (fst (MountAll Default hostWorld New))"
    using 2 by (simp add: panicked_def)
  have h1: "deviceMgrScan hostWorld New = (Ok [0, 1, 2, 3], ?s1)"
    using 1 by (simp add: prod_eq_iff)
  have h2: "MountAll Default hostWorld New = (fst (MountAll Default hostWorld New), ?s2)"
    by simp
  from MountAll_attempts_every_partition[OF h1 h2] np
  have a: "attemptEach Default hostWorld
             (filter (\<lambda>r. IsPartition (heap ?s1 r) \<and> \<not> IsMounted (heap ?s1 r)) [0, 1, 2, 3]) ?s1
             = MountAll Default hostWorld New"
    and b: "attempts (drop (length (trace ?s1)) (trace ?s2))
              = map (\<lambda>r. (Path (heap ?s1 r), IsMounted (heap ?s2 r)))
                  (filter (\<lambda>r. IsPartition (heap ?s1 r) \<and> \<not> IsMounted (heap ?s1 r)) [0, 1, 2, 3])"
    by simp_all
  have c: "map (\<lambda>r. (Path (heap ?s1 r), IsMounted (heap ?s2 r))) [1, 2, 3]
             = [(''/dev/da0p1'', True), (''/dev/da0p2'', False), (''/dev/da0p3'', True)]"
    using 4 5 by simp
  from 1 2 3 a b c show ?thesis
    by simp
qed

subsection \<open>The poll-diff loop with its handlers\<close>

lemma silent_refl [simp]: "silent s s"
  by (simp add: silent_def)

lemma silent_trans: "silent s s1 \<Longrightarrow> silent s1 s2 \<Longrightarrow> silent s s2"
  by (simp add: silent_def)

lemma silent_emit: "callOf a = None \<Longrightarrow> silent s s1 \<Longrightarrow> silent s (emit a s1)"
  by (simp add: silent_def)

lemma sendNotification_silent:
  assumes "sendNotification cfg secs title body dev s = (res, s')"
  shows "silent s s'"
  using sendNotification_frame[OF assms] by (auto simp: silent_def)

lemma executeEventHook_silent: "silent s (executeEventHook cfg event dev s)"
  using executeEventHook_frame[of cfg event dev s] by (auto simp: silent_def)

lemma mountDevice_silent:
  assumes "mountDevice cfg w r s = (res, s')" and "\<forall>p. res \<noteq> Panic p"
  shows "silent s s'"
  using mountDevice_frame[OF assms(1)] assms(2)
  by (cases res) (auto simp: silent_def)

lemma unmountDevice_silent:
  assumes "unmountDevice cfg w r s = (res, s')"
  shows "silent s s'"
proof (cases "IsMounted (heap s r)")
  case False
  with assms show ?thesis by (simp add: unmountDevice_def)
next
  case True
  let ?dev = "heap s r"
  let ?s1 = "emit (Log (LogUnmounting (Path ?dev) (MountPoint ?dev))) s"
  show ?thesis
  proof (cases "answer w (trace ?s1) (Exec ''umount'' [MountPoint ?dev] None)")
    case (Failure err out)
    with assms True show ?thesis
      by (auto simp: unmountDevice_def Let_def perform_def silent_def)
  next
    case (Success out)
    let ?dev1 = "?dev\<lparr>MountPoint := [], IsMounted := False\<rparr>"
    let ?s3 = "(emit (Exec ''umount'' [MountPoint ?dev] None) ?s1)
                 \<lparr>heap := (heap s)(r := ?dev1), mounted := (mounted s)(Path ?dev := None)\<rparr>"
    let ?s5 = "emit (Log (LogUnmounted (Path ?dev))) (emit (Remove (MountPoint ?dev)) ?s3)"
    obtain nr s6 where n: "sendNotification cfg (DeviceUnmounted (Notifications cfg))
                           ''Device Unmounted'' (\<lambda>name. name @ '' unmounted'') ?dev1 ?s5 = (nr, s6)"
      by (cases "sendNotification cfg (DeviceUnmounted (Notifications cfg))
                           ''Device Unmounted'' (\<lambda>name. name @ '' unmounted'') ?dev1 ?s5") auto
    have a: "silent s ?s5"
      by (simp add: silent_def)
    have b: "silent ?s5 s6"
      by (rule sendNotification_silent[OF n])
    have c: "silent s6 (executeEventHook cfg ''device_unmounted'' ?dev1 s6)"
      by (rule executeEventHook_silent)
    have "s' = s6 \<or> s' = executeEventHook cfg ''device_unmounted'' ?dev1 s6"
      using assms True Success n
      by (auto simp: unmountDevice_def Let_def perform_def split: res.splits)
    with a b c show ?thesis
      by (auto intro: silent_trans)
  qed
qed

lemma onDeviceAdded_calls:
  assumes "onDeviceAdded cfg w r s = (res, s')" and "\<forall>p. res \<noteq> Panic p"
  shows "calls (trace s') = calls (trace s) @ [Inl (Path (heap s r))]
         \<and> (\<forall>r'. Path (heap s' r') = Path (heap s r'))"
proof (cases "GetDisplayName (heap s r)")
  case (Inl p)
  with assms show ?thesis by (auto simp: onDeviceAdded_def)
next
  case (Inr name)
  let ?dev = "heap s r"
  let ?s1 = "emit (Log (LogDeviceAdded (Path ?dev) name)) s"
  have base: "calls (trace ?s1) = calls (trace s) @ [Inl (Path ?dev)]"
    "\<forall>r'. Path (heap ?s1 r') = Path (heap s r')"
    by simp_all
  have fin: ?thesis if "silent ?s1 s'"
    using that base by (simp add: silent_def)
  show ?thesis
  proof (cases "ShouldIgnoreDevice cfg (Label ?dev) (UUID ?dev) (Path ?dev)")
    case True
    with assms Inr have "s' = emit (Log (LogIgnoring (Path ?dev))) ?s1"
      by (auto simp: onDeviceAdded_def Let_def)
    then show ?thesis by (intro fin) (simp add: silent_def)
  next
    case False
    obtain nr s2 where n: "sendNotification cfg (DeviceAdded (Notifications cfg)) ''Device Added''
                           (\<lambda>name. name @ '' connected'') ?dev ?s1 = (nr, s2)"
      by (cases "sendNotification cfg (DeviceAdded (Notifications cfg)) ''Device Added''
                           (\<lambda>name. name @ '' connected'') ?dev ?s1") auto
    let ?s3 = "executeEventHook cfg ''device_added'' ?dev s2"
    have s13: "silent ?s1 ?s3"
      using sendNotification_silent[OF n] executeEventHook_silent[of s2 cfg "''device_added''" ?dev]
      by (rule silent_trans)
    have np: "\<forall>p. nr \<noteq> Panic p"
      using assms Inr False n by (auto simp: onDeviceAdded_def Let_def)
    show ?thesis
    proof (cases "IsPartition ?dev \<and> ShouldAutomountDevice cfg (Label ?dev) (UUID ?dev) (Path ?dev)")
      case nomount: False
      with assms Inr False n np have "s' = ?s3"
        by (cases nr) (auto simp: onDeviceAdded_def Let_def)
      with s13 show ?thesis by (intro fin) simp
    next
      case True
      obtain mr s4 where m: "mountDevice cfg w r ?s3 = (mr, s4)"
        by (cases "mountDevice cfg w r ?s3") auto
      have e: "onDeviceAdded cfg w r s =
                 (case mr of
                    Panic p \<Rightarrow> (Panic p, s4)
                  | Ok u \<Rightarrow> (Ok (), s4)
                  | Fail err \<Rightarrow>
                      (case sendNotification cfg (JobFailed (Notifications cfg))
                                           ''Mount Failed''
                                           (\<lambda>name. ''Failed to mount '' @ name @ '': ''
                                                     @ errorText err)
                                           (heap s4 r)
                                           (emit (Log (LogFailedAutomount (Path (heap s4 r)) err)) s4) of
                                      (Panic p, s5) \<Rightarrow> (Panic p, s5)
                                    | (_, s5) \<Rightarrow> (Ok (), s5)))"
        using Inr False n np True m
        by (cases nr) (simp_all add: onDeviceAdded_def Let_def)
      have mp: "\<forall>p. mr \<noteq> Panic p"
        using assms e by (cases mr) auto
      have s34: "silent ?s3 s4"
        by (rule mountDevice_silent[OF m mp])
      show ?thesis
      proof (cases mr)
        case (Ok u)
        with assms e have "s' = s4" by simp
        with s13 s34 show ?thesis by (intro fin) (auto intro: silent_trans)
      next
        case (Panic p)
        with mp show ?thesis by simp
      next
        case (Fail err)
        let ?s4 = "emit (Log (LogFailedAutomount (Path (heap s4 r)) err)) s4"
        obtain fr s5 where f: "sendNotification cfg (JobFailed (Notifications cfg))
                                           ''Mount Failed''
                                           (\<lambda>name. ''Failed to mount '' @ name @ '': ''
                                                     @ errorText err)
                                           (heap s4 r) ?s4 = (fr, s5)"
          by (cases "sendNotification cfg (JobFailed (Notifications cfg))
                                           ''Mount Failed''
                                           (\<lambda>name. ''Failed to mount '' @ name @ '': ''
                                                     @ errorText err)
                                           (heap s4 r) ?s4") auto
        have "s' = s5"
          using assms e Fail f by (cases fr) auto
        moreover have "silent s4 ?s4" by (simp add: silent_def)
        moreover note sendNotification_silent[OF f]
        ultimately show ?thesis
          using s13 s34 by (intro fin) (auto intro: silent_trans)
      qed
    qed
  qed
qed

lemma onDeviceRemoved_calls:
  assumes "onDeviceRemoved cfg w path s = (res, s')" and "\<forall>p. res \<noteq> Panic p"
  shows "calls (trace s') = calls (trace s) @ [Inr path]
         \<and> (\<forall>r'. Path (heap s' r') = Path (heap s r'))"
proof -
  let ?s1 = "emit (Log (LogDeviceRemoved path)) s"
  have base: "calls (trace ?s1) = calls (trace s) @ [Inr path]"
    "\<forall>r'. Path (heap ?s1 r') = Path (heap s r')"
    by simp_all
  have fin: ?thesis if "silent ?s1 s'"
    using that base by (simp add: silent_def)
  show ?thesis
  proof (cases "mounted s path")
    case None
    with assms have "s' = ?s1 \<or> s' = emit (Notify ''Device Removed'' (path @ '' disconnected'')
                                   (DeviceRemoved (Notifications cfg))) ?s1"
      by (auto simp: onDeviceRemoved_def Let_def split: if_splits)
    then show ?thesis by (intro fin) (auto simp: silent_def)
  next
    case (Some r)
    obtain ur s2 where u: "unmountDevice cfg w r ?s1 = (ur, s2)"
      by (cases "unmountDevice cfg w r ?s1") auto
    let ?s3 = "case ur of Fail err \<Rightarrow> emit (Log (LogFailedUnmount path err)) s2 | _ \<Rightarrow> s2"
    have s12: "silent ?s1 s2"
      by (rule unmountDevice_silent[OF u])
    have s13: "silent ?s1 ?s3"
      using s12 by (cases ur) (auto simp: silent_def)
    have "\<exists>name. s' = ?s3 \<or> s' = emit (Notify ''Device Removed'' (name @ '' disconnected'')
                                   (DeviceRemoved (Notifications cfg))) ?s3"
      using assms Some u
      by (cases ur) (auto simp: onDeviceRemoved_def Let_def split: if_splits sum.splits)
    with s13 show ?thesis by (intro fin) (auto simp: silent_def)
  qed
qed

lemma checkNew_paths:
  assumes "map Path ds = map Path ds'"
  shows "fst (checkNew ds cur kn evs) = fst (checkNew ds' cur kn evs')
       \<and> fst (snd (checkNew ds cur kn evs)) = fst (snd (checkNew ds' cur kn evs'))
       \<and> (map eventCall evs = map eventCall evs' \<longrightarrow>
            map eventCall (snd (snd (checkNew ds cur kn evs)))
              = map eventCall (snd (snd (checkNew ds' cur kn evs'))))"
  using assms
proof (induction ds arbitrary: ds' cur kn evs evs')
  case Nil
  then show ?case by simp
next
  case (Cons d ds)
  then obtain d' ds2 where ds': "ds' = d' # ds2" "Path d = Path d'" "map Path ds = map Path ds2"
    by (cases ds') auto
  show ?case
  proof (cases "isSet kn (Path d)")
    case True
    with Cons.IH[OF ds'(3), of "cur(Path d \<mapsto> True)" kn evs evs'] ds' show ?thesis
      by (simp add: fun_upd_def)
  next
    case False
    with Cons.IH[OF ds'(3), of "cur(Path d \<mapsto> True)" "kn(Path d \<mapsto> True)"
                   "evs @ [Added d]" "evs' @ [Added d']"] ds'
    show ?thesis
      by (simp add: fun_upd_def)
  qed
qed

lemma handleNew_calls:
  assumes "handleNew cfg w rs cur kn s = (Ok (cur', kn'), s')"
    and "calls (trace s) = base @ map eventCall evs"
  shows "cur' = fst (checkNew (map (heap s) rs) cur kn evs)
       \<and> kn' = fst (snd (checkNew (map (heap s) rs) cur kn evs))
       \<and> calls (trace s') = base @ map eventCall (snd (snd (checkNew (map (heap s) rs) cur kn evs)))
       \<and> (\<forall>r. Path (heap s' r) = Path (heap s r))"
  using assms
proof (induction rs arbitrary: cur kn s evs)
  case Nil
  then show ?case by simp
next
  case (Cons r rs)
  let ?path = "Path (heap s r)"
  show ?case
  proof (cases "isSet kn ?path")
    case True
    with Cons.prems(1) have h: "handleNew cfg w rs (cur(?path \<mapsto> True)) kn s = (Ok (cur', kn'), s')"
      by simp
    from Cons.IH[OF h Cons.prems(2)] True show ?thesis
      by (simp add: fun_upd_def)
  next
    case False
    obtain hr s1 where a: "onDeviceAdded cfg w r s = (hr, s1)"
      by (cases "onDeviceAdded cfg w r s") auto
    have np: "\<forall>p. hr \<noteq> Panic p"
      using Cons.prems(1) False a by (cases hr) auto
    from onDeviceAdded_calls[OF a np] have
      c1: "calls (trace s1) = calls (trace s) @ [Inl ?path]"
      and p1: "\<forall>r'. Path (heap s1 r') = Path (heap s r')"
      by auto
    have h: "handleNew cfg w rs (cur(?path \<mapsto> True)) (kn(?path \<mapsto> True)) s1 = (Ok (cur', kn'), s')"
      using Cons.prems(1) False a np p1 by (cases hr) auto
    have b: "calls (trace s1) = base @ map eventCall (evs @ [Added (heap s r)])"
      using c1 Cons.prems(2) by simp
    have mp: "map Path (map (heap s1) rs) = map Path (map (heap s) rs)"
      using p1 by simp
    from Cons.IH[OF h b]
         checkNew_paths[OF mp, of "cur(?path \<mapsto> True)" "kn(?path \<mapsto> True)"
                          "evs @ [Added (heap s r)]" "evs @ [Added (heap s r)]"]
         False p1
    show ?thesis
      by (simp add: fun_upd_def)
  qed
qed

lemma handleRemoved_calls:
  assumes "handleRemoved cfg w ps cur kn s = (Ok kn', s')"
    and "calls (trace s) = base @ map eventCall evs"
  shows "kn' = fst (checkRemoved ps cur kn evs)
       \<and> calls (trace s') = base @ map eventCall (snd (checkRemoved ps cur kn evs))
       \<and> (\<forall>r. Path (heap s' r) = Path (heap s r))"
  using assms
proof (induction ps arbitrary: kn s evs)
  case Nil
  then show ?case by simp
next
  case (Cons path ps)
  show ?case
  proof (cases "isSet cur path")
    case True
    with Cons.prems(1) have h: "handleRemoved cfg w ps cur kn s = (Ok kn', s')"
      by simp
    from Cons.IH[OF h Cons.prems(2)] True show ?thesis
      by (simp add: fun_upd_def)
  next
    case False
    obtain hr s1 where a: "onDeviceRemoved cfg w path s = (hr, s1)"
      by (cases "onDeviceRemoved cfg w path s") auto
    have np: "\<forall>p. hr \<noteq> Panic p"
      using Cons.prems(1) False a by (cases hr) auto
    from onDeviceRemoved_calls[OF a np] have
      c1: "calls (trace s1) = calls (trace s) @ [Inr path]"
      and p1: "\<forall>r'. Path (heap s1 r') = Path (heap s r')"
      by auto
    have h: "handleRemoved cfg w ps cur (kn(path := None)) s1 = (Ok kn', s')"
      using Cons.prems(1) False a np by (cases hr) auto
    have b: "calls (trace s1) = base @ map eventCall (evs @ [Removed path])"
      using c1 Cons.prems(2) by simp
    from Cons.IH[OF h b] False p1 show ?thesis
      by (simp add: fun_upd_def)
  qed
qed

lemma pollDevicesTick_calls:
  assumes scan: "deviceMgrScan w s = (Ok devices, s1)"
    and tick: "pollDevicesTick cfg w order knownDevices s = (Ok knownDevices', s2)"
  shows "knownDevices' = fst (pollTick (Inr (map (heap s1) devices)) order knownDevices)
       \<and> calls (trace s2)
           = calls (trace s1)
             @ map eventCall (snd (pollTick (Inr (map (heap s1) devices)) order knownDevices))"
proof -
  obtain hr s3 where h: "handleNew cfg w devices Map.empty knownDevices s1 = (hr, s3)"
    by (cases "handleNew cfg w devices Map.empty knownDevices s1") auto
  from scan tick h obtain cur kn1 where
    hr: "hr = Ok (cur, kn1)" and g: "handleRemoved cfg w order cur kn1 s3 = (Ok knownDevices', s2)"
    by (cases hr) (auto simp: pollDevicesTick_def)
  obtain c k e where cn: "checkNew (map (heap s1) devices) Map.empty knownDevices [] = (c, k, e)"
    by (cases "checkNew (map (heap s1) devices) Map.empty knownDevices []") auto
  from handleNew_calls[OF h[unfolded hr], of "calls (trace s1)" "[]"] cn have
    1: "cur = c" "kn1 = k" "calls (trace s3) = calls (trace s1) @ map eventCall e"
    by simp_all
  from handleRemoved_calls[OF g 1(3)] 1(1,2) cn show ?thesis
    by (simp add: pollTick_def)
qed

lemma pollDevicesTick_scan_failed:
  assumes "deviceMgrScan w s = (Fail err, s1)"
  shows "pollDevicesTick cfg w order knownDevices s
           = (Ok (fst (pollTick (Inl err) order knownDevices)), emit (Log (LogScanFailed err)) s1)
         \<and> snd (pollTick (Inl err) order knownDevices) = []"
  using assms by (simp add: pollDevicesTick_def pollTick_def)

lemma pollDevicesTick_result:
  assumes scan: "deviceMgrScan w s = (Ok devices, s1)"
    and tick: "pollDevicesTick cfg w order knownDevices s = (res, s2)"
    and np: "\<not> panicked res"
  shows "\<exists>known'. res = Ok known'"
proof -
  obtain hr s3 where h: "handleNew cfg w devices Map.empty knownDevices s1 = (hr, s3)"
    by (cases "handleNew cfg w devices Map.empty knownDevices s1") auto
  have nf: "hr \<noteq> Fail err" if "handleNew cfg w rs cur kn t = (hr, t')" for rs cur kn t t' hr err
    using that
    by (induction rs arbitrary: cur kn t) (auto split: if_splits prod.splits res.splits)
  have nf2: "gr \<noteq> Fail err" if "handleRemoved cfg w ps cur kn t = (gr, t')" for ps cur kn t t' gr err
    using that
    by (induction ps arbitrary: kn t) (auto split: if_splits prod.splits res.splits)
  show ?thesis
  proof (cases hr)
    case (Ok ck)
    obtain cur kn1 where ck: "ck = (cur, kn1)" by (cases ck) auto
    with scan tick h Ok have g: "handleRemoved cfg w order cur kn1 s3 = (res, s2)"
      by (simp add: pollDevicesTick_def)
    show ?thesis
    proof (cases res)
      case (Fail err)
      with nf2[OF g, of err] show ?thesis by simp
    qed (use np in \<open>auto simp: panicked_def\<close>)
  next
    case (Fail err)
    with nf[OF h, of err] show ?thesis by simp
  next
    case (Panic p)
    with scan tick h np show ?thesis
      by (auto simp: pollDevicesTick_def panicked_def)
  qed
qed

text \<open>
  In a tick whose scan succeeds and in which every handler call returns, the handlers
  are called as follows: \<^verbatim>\<open>onDeviceAdded\<close> exactly for the paths of the scan that
  are not known, \<^verbatim>\<open>onDeviceRemoved\<close> exactly for the known paths that the scan does
  not list, each once; a path that is known and listed gets no call, and no path gets
  both. The paths known after the tick are those of the scan. The known map holds only
  true values (it starts empty, and the last conjunct says that a tick keeps this), and
  \<open>order\<close> is an order in which the second loop may visit its keys. A tick whose scan
  fails calls no handler (\<open>pollDevicesTick_scan_failed\<close>).
\<close>

lemma pollDevicesTick_diff:
  assumes inv: "ran knownDevices \<subseteq> {True}"
    and scan: "deviceMgrScan w s = (Ok devices, s1)"
    and ord: "rangeOrder order (knownAfterNew (map (heap s1) devices) knownDevices)"
    and tick: "pollDevicesTick cfg w order knownDevices s = (res, s2)"
    and np: "\<not> panicked res"
  shows "\<exists>known' cs. res = Ok known'
           \<and> calls (trace s2) = calls (trace s1) @ cs
           \<and> {p. Inl p \<in> set cs} = Path ` heap s1 ` set devices - dom knownDevices
           \<and> {p. Inr p \<in> set cs} = dom knownDevices - Path ` heap s1 ` set devices
           \<and> {p. Inl p \<in> set cs} \<inter> {p. Inr p \<in> set cs} = {}
           \<and> distinct cs
           \<and> dom known' = Path ` heap s1 ` set devices \<and> ran known' \<subseteq> {True}"
proof -
  let ?devs = "map (heap s1) devices"
  let ?paths = "Path ` heap s1 ` set devices"
  from pollDevicesTick_result[OF scan tick np] obtain known' where r: "res = Ok known'"
    by blast
  from pollDevicesTick_calls[OF scan tick[unfolded r]] have
    k: "known' = fst (pollTick (Inr ?devs) order knownDevices)"
    and c: "calls (trace s2)
             = calls (trace s1) @ map eventCall (snd (pollTick (Inr ?devs) order knownDevices))"
    by simp_all
  from pollTick_diff[OF inv ord] obtain new where
    new: "snd (pollTick (Inr ?devs) order knownDevices)
                 = map Added new @ map Removed (filter (\<lambda>p. p \<notin> Path ` set ?devs) order)"
       "distinct (map Path new)"
       "set (map Path new) = Path ` set ?devs - dom knownDevices"
       "set (filter (\<lambda>p. p \<notin> Path ` set ?devs) order) = dom knownDevices - Path ` set ?devs"
       "distinct (filter (\<lambda>p. p \<notin> Path ` set ?devs) order)"
       "dom (fst (pollTick (Inr ?devs) order knownDevices)) = Path ` set ?devs"
       "ran (fst (pollTick (Inr ?devs) order knownDevices)) \<subseteq> {True}"
    by blast
  let ?gone = "filter (\<lambda>p. p \<notin> Path ` set ?devs) order"
  let ?cs = "map Inl (map Path new) @ map Inr ?gone"
  have cs: "map eventCall (snd (pollTick (Inr ?devs) order knownDevices)) = ?cs"
    by (simp add: new(1) comp_def)
  have a: "{p. Inl p \<in> set ?cs} = set (map Path new)" and b: "{p. Inr p \<in> set ?cs} = set ?gone"
    by auto
  have d: "distinct ?cs"
    using new(2,5) by (auto simp: distinct_map inj_on_def)
  have ps: "Path ` set ?devs = ?paths"
    by (simp add: image_image)
  show ?thesis
    apply (rule exI[of _ known'], rule exI[of _ ?cs])
    unfolding a b
    using r c cs d new(3,4,6,7) k ps
    by auto
qed

lemma knownPair_true: "ran knownPair \<subseteq> {True}"
  by (auto simp: knownPair_def ran_def split: if_splits)

lemma dom_knownPair: "dom knownPair = {''/dev/da0'', ''/dev/da2''}"
  by (auto simp: knownPair_def split: if_splits)

text \<open>
  C3. The claim is that in every tick an Added event is emitted for exactly the paths
  that the new scan lists and that were not known, and a Removed event for exactly the
  known paths that the scan does not list. The loop calls \<^verbatim>\<open>onDeviceAdded\<close> for the
  new devices one after the other, and the first statement of the handler formats
  \<^verbatim>\<open>dev.GetDisplayName()\<close>, which panics for a record without label whose UUID has
  fewer than 8 bytes (C10). On the host of \<open>clearedUuidWorld\<close> nothing is known and the
  scan lists \<^verbatim>\<open>/dev/sdb\<close>, \<^verbatim>\<open>/dev/sdb1\<close> and \<^verbatim>\<open>/dev/sdb2\<close>: the handler is
  called for \<^verbatim>\<open>/dev/sdb\<close>, its call for \<^verbatim>\<open>/dev/sdb1\<close> panics, and
  \<^verbatim>\<open>/dev/sdb2\<close> gets no event.
\<close>

theorem pollDevicesTick_panic_loses_events:
  "fst (deviceMgrScan clearedUuidWorld New) = Ok [0, 1, 2]
   \<and> map (\<lambda>r. Path (heap (snd (deviceMgrScan clearedUuidWorld New)) r)) [0, 1, 2]
       = [''/dev/sdb'', ''/dev/sdb1'', ''/dev/sdb2'']
   \<and> GetDisplayName (heap (snd (deviceMgrScan clearedUuidWorld New)) 1)
       = Inl (SliceBoundsOutOfRange 8 6)
   \<and> panicked (fst (pollDevicesTick Default clearedUuidWorld
                      [''/dev/sdb'', ''/dev/sdb1'', ''/dev/sdb2''] Map.empty New))
   \<and> trace (snd (pollDevicesTick Default clearedUuidWorld
                    [''/dev/sdb'', ''/dev/sdb1'', ''/dev/sdb2''] Map.empty New))
       = [ScanDevices, Log (LogDeviceAdded ''/dev/sdb'' ''sdb'')]"
proof -
  let ?t = "pollDevicesTick Default clearedUuidWorld
              [''/dev/sdb'', ''/dev/sdb1'', ''/dev/sdb2''] Map.empty New"
  have 1: "fst (deviceMgrScan clearedUuidWorld New) = Ok [0, 1, 2]"
    by code_simp
  have 2: "map (\<lambda>r. Path (heap (snd (deviceMgrScan clearedUuidWorld New)) r)) [0, 1, 2]
       = [''/dev/sdb'', ''/dev/sdb1'', ''/dev/sdb2'']"
    by code_simp
  have 3: "GetDisplayName (heap (snd (deviceMgrScan clearedUuidWorld New)) 1)
       = Inl (SliceBoundsOutOfRange 8 6)"
    by code_simp
  have 4: "panicked (fst ?t)"
    by code_simp
  have 5: "trace (snd ?t) = [ScanDevices, Log (LogDeviceAdded ''/dev/sdb'' ''sdb'')]"
    by code_simp
  from 1 2 3 4 5 show ?thesis by simp
qed

text \<open>
  C4. The claim is that the events of a tick are emitted in path-sorted order and that
  two runs over the same scan results emit in the same order. The code does not sort: for
  the scan \<^verbatim>\<open>/dev/da1, /dev/da0\<close> the handler is called for \<^verbatim>\<open>da1\<close> before
  \<^verbatim>\<open>da0\<close>, and the removals follow the order in which the map is ranged over, which
  differs between runs.
\<close>

theorem pollDevicesTick_not_path_sorted:
  "calls (trace (snd (pollDevicesTick Default diskWorld [''/dev/da0'', ''/dev/da1''] Map.empty New)))
     = [Inl ''/dev/da1'', Inl ''/dev/da0'']
   \<and> rangeOrder [''/dev/da0'', ''/dev/da2''] knownPair
   \<and> calls (trace (snd (pollDevicesTick Default emptyWorld [''/dev/da0'', ''/dev/da2''] knownPair New)))
       = [Inr ''/dev/da0'', Inr ''/dev/da2'']
   \<and> rangeOrder [''/dev/da2'', ''/dev/da0''] knownPair
   \<and> calls (trace (snd (pollDevicesTick Default emptyWorld [''/dev/da2'', ''/dev/da0''] knownPair New)))
       = [Inr ''/dev/da2'', Inr ''/dev/da0'']"
proof -
  have 1: "calls (trace (snd (pollDevicesTick Default diskWorld [''/dev/da0'', ''/dev/da1''] Map.empty New)))
     = [Inl ''/dev/da1'', Inl ''/dev/da0'']"
    by code_simp
  have 2: "rangeOrder [''/dev/da0'', ''/dev/da2''] knownPair"
    by (auto simp: rangeOrder_def dom_knownPair)
  have 3: "calls (trace (snd (pollDevicesTick Default emptyWorld [''/dev/da0'', ''/dev/da2''] knownPair New)))
       = [Inr ''/dev/da0'', Inr ''/dev/da2'']"
    by code_simp
  have 4: "rangeOrder [''/dev/da2'', ''/dev/da0''] knownPair"
    by (auto simp: rangeOrder_def dom_knownPair)
  have 5: "calls (trace (snd (pollDevicesTick Default emptyWorld [''/dev/da2'', ''/dev/da0''] knownPair New)))
       = [Inr ''/dev/da2'', Inr ''/dev/da0'']"
    by code_simp
  from 1 2 3 4 5 show ?thesis by simp
qed

text \<open>
  C4, as amended. In a tick whose scan succeeds and in which every handler call returns,
  the events are emitted as follows, and not sorted by path. The calls of
  \<^verbatim>\<open>onDeviceAdded\<close> come first: one
  for each path of the scan that was not known, in the order in which the scan lists
  these paths (a path that the scan lists twice counts where it is listed first). The
  calls of \<^verbatim>\<open>onDeviceRemoved\<close> follow: one for each known path that the scan does
  not list, in the order in which the second loop visits the keys of the map of known
  devices, which Go does not fix, so that two runs over the same scan results may differ
  in it. The known map holds only true values, as it does in every run, and \<open>order\<close>
  is the order of the second loop.
\<close>

theorem pollDevicesTick_emission_order:
  assumes inv: "ran knownDevices \<subseteq> {True}"
    and scan: "deviceMgrScan w s = (Ok devices, s1)"
    and ord: "rangeOrder order (knownAfterNew (map (heap s1) devices) knownDevices)"
    and tick: "pollDevicesTick cfg w order knownDevices s = (res, s2)"
    and np: "\<not> panicked res"
  shows "calls (trace s2)
           = calls (trace s1)
             @ map Inl (firstOnly (filter (\<lambda>p. p \<notin> dom knownDevices)
                                     (map (\<lambda>r. Path (heap s1 r)) devices)))
             @ map Inr (filter (\<lambda>p. p \<notin> Path ` heap s1 ` set devices) order)
       \<and> distinct (firstOnly (filter (\<lambda>p. p \<notin> dom knownDevices)
                                (map (\<lambda>r. Path (heap s1 r)) devices)))
       \<and> set (firstOnly (filter (\<lambda>p. p \<notin> dom knownDevices)
                           (map (\<lambda>r. Path (heap s1 r)) devices)))
           = Path ` heap s1 ` set devices - dom knownDevices
       \<and> distinct (filter (\<lambda>p. p \<notin> Path ` heap s1 ` set devices) order)
       \<and> set (filter (\<lambda>p. p \<notin> Path ` heap s1 ` set devices) order)
           = dom knownDevices - Path ` heap s1 ` set devices"
proof -
  let ?devs = "map (heap s1) devices"
  let ?paths = "Path ` heap s1 ` set devices"
  let ?new = "firstOnly (filter (\<lambda>p. p \<notin> dom knownDevices) (map (\<lambda>r. Path (heap s1 r)) devices))"
  let ?gone = "filter (\<lambda>p. p \<notin> ?paths) order"
  from pollDevicesTick_result[OF scan tick np] obtain known' where r: "res = Ok known'"
    by blast
  from pollDevicesTick_calls[OF scan tick[unfolded r]] have
    c: "calls (trace s2)
          = calls (trace s1) @ map eventCall (snd (pollTick (Inr ?devs) order knownDevices))"
    by simp
  have ps: "Path ` set ?devs = ?paths"
    by (simp add: image_image)
  have f: "firstOnly (filter (\<lambda>p. \<not> isSet knownDevices p) (map Path ?devs)) = ?new"
    using isSet_allTrue[OF inv] by (simp add: comp_def)
  have "map eventCall (snd (pollTick (Inr ?devs) order knownDevices))
          = map Inl ?new @ map Inr ?gone"
    by (simp only: pollTick_calls f ps)
  with c have 1: "calls (trace s2) = calls (trace s1) @ map Inl ?new @ map Inr ?gone"
    by simp
  have 2: "distinct ?new"
    by (simp add: firstOnly_set)
  have 3: "set ?new = ?paths - dom knownDevices"
    by (auto simp: firstOnly_set)
  have so: "set order = dom knownDevices \<union> ?paths" and dord: "distinct order"
    using ord by (simp_all add: rangeOrder_def dom_knownAfterNew ps)
  have 4: "distinct ?gone"
    using dord by simp
  have 5: "set ?gone = dom knownDevices - ?paths"
    using so by auto
  from 1 2 3 4 5 show ?thesis
    by blast
qed

theorem pollDevicesTick_emission_order_witness:
  "ran knownPair \<subseteq> {True}
   \<and> fst (deviceMgrScan diskWorld New) = Ok [0, 1]
   \<and> map (\<lambda>r. Path (heap (snd (deviceMgrScan diskWorld New)) r)) [0, 1]
       = [''/dev/da1'', ''/dev/da0'']
   \<and> rangeOrder [''/dev/da2'', ''/dev/da1'', ''/dev/da0'']
        (knownAfterNew (map (heap (snd (deviceMgrScan diskWorld New))) [0, 1]) knownPair)
   \<and> \<not> panicked (fst (pollDevicesTick Default diskWorld
                          [''/dev/da2'', ''/dev/da1'', ''/dev/da0''] knownPair New))
   \<and> calls (trace (snd (pollDevicesTick Default diskWorld
                          [''/dev/da2'', ''/dev/da1'', ''/dev/da0''] knownPair New)))
       = [Inl ''/dev/da1'', Inr ''/dev/da2'']"
proof -
  let ?s1 = "snd (deviceMgrScan diskWorld New)"
  let ?t = "pollDevicesTick Default diskWorld [''/dev/da2'', ''/dev/da1'', ''/dev/da0''] knownPair New"
  have 1: "fst (deviceMgrScan diskWorld New) = Ok [0, 1]"
    by code_simp
  have 2: "map (\<lambda>r. Path (heap ?s1 r)) [0, 1] = [''/dev/da1'', ''/dev/da0'']"
    by code_simp
  have p2: "map Path (map (heap ?s1) [0, 1]) = [''/dev/da1'', ''/dev/da0'']"
    using 2 by simp
  have 3: "rangeOrder [''/dev/da2'', ''/dev/da1'', ''/dev/da0'']
             (knownAfterNew (map (heap ?s1) [0, 1]) knownPair)"
    using p2 by (auto simp: rangeOrder_def dom_knownAfterNew dom_knownPair)
  have 4: "\<not> panicked (fst ?t)"
    by code_simp
  have 6: "calls (trace ?s1) = []"
    by code_simp
  have h1: "deviceMgrScan diskWorld New = (Ok [0, 1], ?s1)"
    using 1 by (simp add: prod_eq_iff)
  have h2: "?t = (fst ?t, snd ?t)"
    by simp
  have img: "Path ` heap ?s1 ` set [0, 1] = {''/dev/da1'', ''/dev/da0''}"
    using 2 by auto
  have new: "firstOnly (filter (\<lambda>p. p \<notin> dom knownPair) (map (\<lambda>r. Path (heap ?s1 r)) [0, 1]))
               = [''/dev/da1'']"
    unfolding 2 by (simp add: dom_knownPair firstOnly_def)
  have gone: "filter (\<lambda>p. p \<notin> Path ` heap ?s1 ` set [0, 1]) [''/dev/da2'', ''/dev/da1'', ''/dev/da0'']
                = [''/dev/da2'']"
    unfolding img by simp
  from pollDevicesTick_emission_order[OF knownPair_true h1 3 h2 4]
  have "calls (trace (snd ?t))
          = calls (trace ?s1)
            @ map Inl (firstOnly (filter (\<lambda>p. p \<notin> dom knownPair)
                                    (map (\<lambda>r. Path (heap ?s1 r)) [0, 1])))
            @ map Inr (filter (\<lambda>p. p \<notin> Path ` heap ?s1 ` set [0, 1])
                         [''/dev/da2'', ''/dev/da1'', ''/dev/da0''])"
    by blast
  then have 5: "calls (trace (snd ?t)) = [Inl ''/dev/da1'', Inr ''/dev/da2'']"
    by (simp only: 6 new gone) simp
  from knownPair_true 1 2 3 4 5 show ?thesis
    by blast
qed

end
